theory Spec2Isabelle
  imports Complex_Main "HOL-Library.Multiset" "HOL-Library.List_Lexorder"
    "HOL-Library.Extended_Nat"
begin

section \<open>Strings and the regular expressions of the scraper\<close>

text \<open>
  A JavaScript string is a sequence of UTF-16 code units. The model keeps the code units
  below 256 (the Latin-1 range), which is what a \<^typ>\<open>char\<close> holds; a \<^typ>\<open>string\<close> is the
  list of them. Character classes are written out for that range:
  \<^verbatim>\<open>\s\<close> is TAB, LF, VT, FF, CR, SPACE and NBSP; \<^verbatim>\<open>\d\<close> is \<^verbatim>\<open>0-9\<close>;
  \<^verbatim>\<open>[A-Z]\<close> under the \<^verbatim>\<open>i\<close> flag is the ASCII letters of both cases.
\<close>

definition isSpace :: "char \<Rightarrow> bool" where
  "isSpace c = (c \<in> set [CHR 0x09, CHR 0x0A, CHR 0x0B, CHR 0x0C, CHR 0x0D, CHR 0x20, CHR 0xA0])"

definition isNewline :: "char \<Rightarrow> bool" where
  "isNewline c = (c = CHR 0x0A)"

definition isDigit :: "char \<Rightarrow> bool" where
  "isDigit c = (let n = (of_char c :: nat) in 48 \<le> n \<and> n \<le> 57)"

definition isAlpha :: "char \<Rightarrow> bool" where
  "isAlpha c = (let n = (of_char c :: nat) in (65 \<le> n \<and> n \<le> 90) \<or> (97 \<le> n \<and> n \<le> 122))"

text \<open>\<^verbatim>\<open>String.prototype.toLowerCase\<close> on Latin-1 code units: \<^verbatim>\<open>A-Z\<close> and the
  accented capitals \<^verbatim>\<open>0xC0-0xDE\<close> (without the multiplication sign \<^verbatim>\<open>0xD7\<close>) move up by 32.\<close>

definition toLowerChar :: "char \<Rightarrow> char" where
  "toLowerChar c =
     (let n = (of_char c :: nat)
      in if (65 \<le> n \<and> n \<le> 90) \<or> (192 \<le> n \<and> n \<le> 222 \<and> n \<noteq> 215)
         then char_of (n + 32) else c)"

definition toLowerCase :: "string \<Rightarrow> string" where
  "toLowerCase s = map toLowerChar s"

text \<open>\<^verbatim>\<open>String.prototype.includes\<close>: the needle occurs at some offset.\<close>

fun str_includes :: "string \<Rightarrow> string \<Rightarrow> bool" where
  "str_includes [] needle = (needle = [])"
| "str_includes (x # xs) needle = (take (length needle) (x # xs) = needle \<or> str_includes xs needle)"

text \<open>\<^verbatim>\<open>String.prototype.trim\<close> removes the same code units as \<^verbatim>\<open>\s\<close> from both ends.\<close>

definition trim :: "string \<Rightarrow> string" where
  "trim s = rev (dropWhile isSpace (rev (dropWhile isSpace s)))"

text \<open>
  Every regular expression of the scraper is a sequence of atoms: one character of a class,
  or a greedy repetition \<^verbatim>\<open>c{n,}\<close> of a class (\<^verbatim>\<open>+\<close> is \<^verbatim>\<open>{1,}\<close>, \<^verbatim>\<open>*\<close> is
  \<^verbatim>\<open>{0,}\<close>). \<open>matchAt\<close> is the backtracking matcher anchored at the head of the string: a
  repetition first takes the longest run and gives characters back one at a time until the
  rest of the pattern matches. It returns the length of the match.
\<close>

datatype atom = One "char \<Rightarrow> bool" | Many nat "char \<Rightarrow> bool"

fun first_some :: "('a \<Rightarrow> 'b option) \<Rightarrow> 'a list \<Rightarrow> 'b option" where
  "first_some f [] = None"
| "first_some f (x # xs) = (case f x of Some y \<Rightarrow> Some y | None \<Rightarrow> first_some f xs)"

fun matchAt :: "atom list \<Rightarrow> string \<Rightarrow> nat option" where
  "matchAt [] s = Some 0"
| "matchAt (One c # as) s =
     (case s of [] \<Rightarrow> None
      | x # xs \<Rightarrow> if c x then map_option Suc (matchAt as xs) else None)"
| "matchAt (Many n c # as) s =
     first_some (\<lambda>k. map_option (\<lambda>m. k + m) (matchAt as (drop k s)))
       (rev [n ..< Suc (length (takeWhile c s))])"

lemma first_some_SomeD: "first_some f xs = Some y \<Longrightarrow> \<exists>x \<in> set xs. f x = Some y"
  by (induction xs) (auto split: option.splits)

lemma matchAt_le: "matchAt re s = Some k \<Longrightarrow> k \<le> length s"
proof (induction re arbitrary: s k)
  case Nil
  then show ?case by simp
next
  case (Cons a as)
  show ?case
  proof (cases a)
    case (One c)
    with Cons show ?thesis by (auto split: list.splits if_splits)
  next
    case (Many n c)
    with Cons.prems obtain j m
      where jm: "matchAt as (drop j s) = Some m" "k = j + m" "j \<le> length (takeWhile c s)"
      by (auto dest!: first_some_SomeD)
    have "length (takeWhile c s) \<le> length s" by (rule length_takeWhile_le)
    with jm show ?thesis using Cons.IH[of "drop j s" m] by simp
  qed
qed

text \<open>
  A scan with the \<^verbatim>\<open>g\<close> flag: from left to right, the leftmost match is taken and the scan
  goes on behind it; a position with no match is passed over. The result lists the matched
  substrings (\<open>Inl\<close>) and the characters passed over (\<open>Inr\<close>) in order. After an empty
  match the scan moves on by one character, as \<^verbatim>\<open>lastIndex\<close> does.
\<close>

function scan :: "atom list \<Rightarrow> string \<Rightarrow> (string + char) list" where
  "scan re s =
     (case matchAt re s of
        Some k \<Rightarrow>
          if k = 0 then (case s of [] \<Rightarrow> [Inl []] | x # xs \<Rightarrow> Inl [] # Inr x # scan re xs)
          else Inl (take k s) # scan re (drop k s)
      | None \<Rightarrow> (case s of [] \<Rightarrow> [] | x # xs \<Rightarrow> Inr x # scan re xs))"
  by pat_completeness auto
termination
proof (relation "measure (\<lambda>(re, s). length s)")
  show "wf (measure (\<lambda>(re, s). length s))" by simp
next
  fix re s k assume "matchAt re s = Some k" "k \<noteq> 0"
  then have "k \<le> length s" "0 < k" by (auto dest: matchAt_le)
  then show "((re, drop k s), (re, s)) \<in> measure (\<lambda>(re, s). length s)" by simp
qed auto

declare scan.simps [simp del]

text \<open>\<^verbatim>\<open>s.replace(/re/g, rep)\<close> with a replacement that has no \<^verbatim>\<open>$\<close> pattern.\<close>

definition replaceAll :: "atom list \<Rightarrow> string \<Rightarrow> string \<Rightarrow> string" where
  "replaceAll re rep s = concat (map (\<lambda>t. case t of Inl m \<Rightarrow> rep | Inr c \<Rightarrow> [c]) (scan re s))"

text \<open>\<^verbatim>\<open>s.match(/re/g)\<close> and \<^verbatim>\<open>s.matchAll(/re/g)\<close>: the matched substrings in order.\<close>

definition matchAll :: "atom list \<Rightarrow> string \<Rightarrow> string list" where
  "matchAll re s = concat (map (\<lambda>t. case t of Inl m \<Rightarrow> [m] | Inr c \<Rightarrow> []) (scan re s))"

text \<open>\<^verbatim>\<open>/re/.test(s)\<close> without the \<^verbatim>\<open>g\<close> flag: the pattern matches at some offset.\<close>

definition test :: "atom list \<Rightarrow> string \<Rightarrow> bool" where
  "test re s = list_ex (\<lambda>i. matchAt re (drop i s) \<noteq> None) [0 ..< Suc (length s)]"

text \<open>A literal character, and a literal character under the \<^verbatim>\<open>i\<close> flag.\<close>

definition lit :: "string \<Rightarrow> atom list" where
  "lit s = map (\<lambda>c. One (\<lambda>x. x = c)) s"

definition liti :: "string \<Rightarrow> atom list" where
  "liti s = map (\<lambda>c. One (\<lambda>x. toLowerChar x = toLowerChar c)) s"

subsection \<open>cleanText\<close>

text \<open>
  \<^verbatim>\<open>cleanText\<close> receives the result of \<^verbatim>\<open>.text()\<close> or of a split, always a string; the
  four replacements run in the order of the source, then \<^verbatim>\<open>trim\<close>.
\<close>

definition cleanText :: "string \<Rightarrow> string" where
  "cleanText text =
     trim
       (replaceAll [Many 3 isNewline] [CHR 0x0A, CHR 0x0A]
         (replaceAll [Many 2 isSpace] [CHR 0x20]
           (replaceAll [One isNewline, Many 1 isSpace] [CHR 0x0A]
             (replaceAll [Many 1 isSpace, One isNewline] [CHR 0x0A] text))))"

text \<open>
  For the analysis of \<^verbatim>\<open>cleanText\<close>: the length of the run of white space at the head
  of a string, the results of its first three replacements, and three properties of a
  text. In the first no newline stands behind a white-space character, in the second no
  newline stands next to one on either side, and in the third no two newlines are
  adjacent, that is, the text has no blank line.
\<close>

definition wsRun :: "string \<Rightarrow> nat" where
  "wsRun s = length (takeWhile isSpace s)"

definition beforeNewline :: "string \<Rightarrow> string" where
  "beforeNewline s = replaceAll [Many 1 isSpace, One isNewline] [CHR 0x0A] s"

definition afterNewline :: "string \<Rightarrow> string" where
  "afterNewline s = replaceAll [One isNewline, Many 1 isSpace] [CHR 0x0A] s"

definition squeezeSpaces :: "string \<Rightarrow> string" where
  "squeezeSpaces s = replaceAll [Many 2 isSpace] [CHR 0x20] s"

fun noSpaceBeforeNewline :: "string \<Rightarrow> bool" where
  "noSpaceBeforeNewline (x # y # r) =
     (\<not> (isSpace x \<and> y = CHR 0x0A) \<and> noSpaceBeforeNewline (y # r))"
| "noSpaceBeforeNewline s = True"

fun newlinesIsolated :: "string \<Rightarrow> bool" where
  "newlinesIsolated (x # y # r) =
     (\<not> (x = CHR 0x0A \<and> isSpace y) \<and> \<not> (isSpace x \<and> y = CHR 0x0A)
      \<and> newlinesIsolated (y # r))"
| "newlinesIsolated s = True"

fun noBlankLine :: "string \<Rightarrow> bool" where
  "noBlankLine (x # y # r) = (\<not> (x = CHR 0x0A \<and> y = CHR 0x0A) \<and> noBlankLine (y # r))"
| "noBlankLine s = True"

subsection \<open>extractEmails\<close>

text \<open>
  The pattern \<^verbatim>\<open>/[A-Z0-9._%+-]+@[A-Z0-9.-]+\.[A-Z]{2,}/gi\<close>. A JavaScript \<^verbatim>\<open>Set\<close> keeps
  its members in insertion order and compares strings exactly; it is modelled as a
  duplicate-free list, \<open>set_add\<close> being \<^verbatim>\<open>Set.prototype.add\<close>.
\<close>

definition isLocalChar :: "char \<Rightarrow> bool" where
  "isLocalChar c = (isAlpha c \<or> isDigit c \<or> c \<in> set ''._%+-'')"

definition isDomainChar :: "char \<Rightarrow> bool" where
  "isDomainChar c = (isAlpha c \<or> isDigit c \<or> c \<in> set ''.-'')"

definition emailRe :: "atom list" where
  "emailRe = [Many 1 isLocalChar, One (\<lambda>c. c = CHR ''@''), Many 1 isDomainChar,
              One (\<lambda>c. c = CHR ''.''), Many 2 isAlpha]"

definition set_add :: "'a \<Rightarrow> 'a list \<Rightarrow> 'a list" where
  "set_add x xs = (if x \<in> set xs then xs else xs @ [x])"

definition new_Set :: "'a list \<Rightarrow> 'a list" where
  "new_Set xs = foldl (\<lambda>acc x. set_add x acc) [] xs"

definition extractEmails :: "string \<Rightarrow> string list" where
  "extractEmails val =
     (if val = [] then []
      else case matchAll emailRe val of
             [] \<Rightarrow> []
           | matches \<Rightarrow> new_Set (map trim matches))"

subsection \<open>parseMaxPage\<close>

text \<open>The exceptions that the scraper raises or lets through.\<close>

datatype error = FetchRejected | HttpError nat | BodyRejected | InvalidUrl | RangeError

text \<open>
  The pattern \<^verbatim>\<open>/page=(\d+)/g\<close>; the capture group is the match without its first five
  characters. \<^verbatim>\<open>Number\<close> of a digit string is the number written when that is below
  \<open>2^53\<close>, and otherwise the double nearest to it, a tie going to the even mantissa, and
  \<^verbatim>\<open>Infinity\<close> from \<open>2^1024 - 2^970\<close> on (the
  rounding of the engines; the standard leaves some freedom beyond 20 significant
  digits). These doubles are natural numbers or \<^verbatim>\<open>Infinity\<close>, the type \<^typ>\<open>enat\<close>;
  the number written is computed as an integer. \<open>exponentOf n\<close> is the number of low
  bits that a mantissa of 53 bits cannot hold.
\<close>

type_synonym number = enat

definition pageRe :: "atom list" where
  "pageRe = lit ''page='' @ [Many 1 isDigit]"

definition decimalValue :: "string \<Rightarrow> int" where
  "decimalValue s = foldl (\<lambda>n c. 10 * n + (of_char c - 48)) 0 s"

function exponentOf :: "int \<Rightarrow> nat" where
  "exponentOf n = (if n < 9007199254740992 then 0 else Suc (exponentOf (n div 2)))"
  by pat_completeness auto
termination
  by (relation "measure nat") auto

declare exponentOf.simps [simp del]

definition toDouble :: "int \<Rightarrow> number" where
  "toDouble n =
     (if n < 9007199254740992 then enat (nat n)
      else
        let e = exponentOf n;
            q = n div 2 ^ e;
            r = n mod 2 ^ e;
            m = (if 2 * r > 2 ^ e \<or> (2 * r = 2 ^ e \<and> odd q) then q + 1 else q)
        in if m * 2 ^ e \<ge> 2 ^ 1024 then \<infinity> else enat (nat (m * 2 ^ e)))"

definition Number_digits :: "string \<Rightarrow> number" where
  "Number_digits s = toDouble (decimalValue s)"

definition pageTokens :: "string \<Rightarrow> number list" where
  "pageTokens html = map (\<lambda>m. Number_digits (drop 5 m)) (matchAll pageRe html)"

text \<open>
  \<^verbatim>\<open>Math.max(...pages)\<close> passes every token as an argument of one call. An engine takes
  only so many arguments and raises a \<^verbatim>\<open>RangeError\<close> beyond; the number it takes depends
  on the engine and its stack, and is the parameter \<open>argumentLimit\<close>. \<open>Math_max\<close> is the
  value of the call on a first argument and the further ones.
\<close>

definition Math_max :: "number \<Rightarrow> number list \<Rightarrow> number" where
  "Math_max p ps = foldl max p ps"

definition parseMaxPage :: "int \<Rightarrow> string \<Rightarrow> error + number" where
  "parseMaxPage argumentLimit html =
     (case pageTokens html of
        [] \<Rightarrow> Inr 1
      | p # ps \<Rightarrow>
          if argumentLimit < int (length (p # ps)) then Inl RangeError
          else Inr (Math_max p ps))"

text \<open>
  The same tokens in the words of the specification, without the scanner: a page-number
  token stands at an offset of the text where \<^verbatim>\<open>page=\<close> is followed by a digit, and it is
  what \<^verbatim>\<open>Number\<close> reads from the whole run of digits there. \<open>pageNumbers\<close> lists the
  tokens of all offsets in order.
\<close>

definition tokenAt :: "string \<Rightarrow> number option" where
  "tokenAt s =
     (if take 5 s = ''page='' \<and> takeWhile isDigit (drop 5 s) \<noteq> []
      then Some (Number_digits (takeWhile isDigit (drop 5 s))) else None)"

fun pageNumbers :: "string \<Rightarrow> number list" where
  "pageNumbers [] = []"
| "pageNumbers (x # xs) =
     (case tokenAt (x # xs) of Some n \<Rightarrow> [n] | None \<Rightarrow> []) @ pageNumbers xs"

section \<open>The fetcher\<close>

text \<open>
  One HTTP exchange either fails at the transport level (\<^verbatim>\<open>fetch\<close> rejects) or yields a
  status and a body; reading the body (\<^verbatim>\<open>response.text()\<close>) may itself reject, which is
  the body \<open>None\<close>. \<^verbatim>\<open>response.ok\<close> holds for the statuses 200 to 299.
\<close>

datatype response = NetworkError | Response nat "string option"

definition ok :: "nat \<Rightarrow> bool" where
  "ok status = (200 \<le> status \<and> status \<le> 299)"

text \<open>The body of the \<^verbatim>\<open>try\<close> block: the value returned, or the error thrown into \<^verbatim>\<open>catch\<close>.\<close>

definition response_text :: "string option \<Rightarrow> error + string" where
  "response_text body = (case body of None \<Rightarrow> Inl BodyRejected | Some t \<Rightarrow> Inr t)"

fun attempt_once :: "response \<Rightarrow> error + string" where
  "attempt_once NetworkError = Inl FetchRejected"
| "attempt_once (Response status body) =
     (if \<not> ok status then
        (if status \<ge> 500 \<or> status = 429 then Inl (HttpError status)
         else response_text body)
      else response_text body)"

text \<open>
  \<^verbatim>\<open>fetchWithRetry\<close> against a server that answers the \<open>k\<close>-th request of this call
  (counted from 0) with \<open>server k\<close>. Besides the result (the text returned, or the error
  raised to the caller) the model records what the call did: the number of requests sent
  and the arguments of \<^verbatim>\<open>sleep\<close> in milliseconds, in order.
\<close>

record fetched =
  result :: "error + string"
  attempts :: nat
  sleeps :: "int list"

function fetchLoop :: "(nat \<Rightarrow> response) \<Rightarrow> int \<Rightarrow> int \<Rightarrow> nat \<Rightarrow> int list \<Rightarrow> fetched" where
  "fetchLoop server retries attempt sent slept =
     (if attempt \<le> retries then
        (case attempt_once (server sent) of
           Inr body \<Rightarrow> \<lparr>result = Inr body, attempts = Suc sent, sleeps = slept\<rparr>
         | Inl err \<Rightarrow>
             (if attempt + 1 > retries
              then \<lparr>result = Inl err, attempts = Suc sent, sleeps = slept\<rparr>
              else fetchLoop server retries (attempt + 1) (Suc sent)
                     (slept @ [500 * (attempt + 1)])))
      else \<lparr>result = Inr [], attempts = sent, sleeps = slept\<rparr>)"
  by pat_completeness auto
termination
  by (relation "measure (\<lambda>(server, retries, attempt, sent, slept). nat (retries + 1 - attempt))")
     auto

declare fetchLoop.simps [simp del]

definition fetchWithRetry :: "(nat \<Rightarrow> response) \<Rightarrow> int \<Rightarrow> fetched" where
  "fetchWithRetry server retries = fetchLoop server retries 0 0 []"

text \<open>The retryable responses in the words of the specification: a transport-level failure
  (of the request or of reading the body), a status of 500 or more, or the status 429.\<close>

definition retryable :: "response \<Rightarrow> bool" where
  "retryable r =
     (case r of NetworkError \<Rightarrow> True
      | Response status body \<Rightarrow> status \<ge> 500 \<or> status = 429 \<or> body = None)"


section \<open>Documents\<close>

text \<open>
  \<^verbatim>\<open>cheerio.load\<close> turns markup into a tree of nodes; the parsers only walk that tree. A
  document is the list of its top-level nodes. An element carries its tag name, its
  attributes and its children.
\<close>

datatype node = Text string | Comment string | Element string "(string \<times> string) list" "node list"

type_synonym document = "node list"

fun isElement :: "node \<Rightarrow> bool" where
  "isElement (Element tag attrs cs) = True"
| "isElement n = False"

fun isTag :: "string \<Rightarrow> node \<Rightarrow> bool" where
  "isTag t (Element tag attrs cs) = (tag = t)"
| "isTag t n = False"

fun children :: "node \<Rightarrow> node list" where
  "children (Element tag attrs cs) = cs"
| "children n = []"

fun attr :: "string \<Rightarrow> node \<Rightarrow> string option" where
  "attr a (Element tag attrs cs) = map_of attrs a"
| "attr a n = None"

text \<open>\<^verbatim>\<open>.text()\<close> of one node: the text of its descendants in document order; a comment has
  none. \<open>textAll\<close> is \<^verbatim>\<open>.text()\<close> of a selection, the concatenation over its members.\<close>

fun textOf :: "node \<Rightarrow> string" where
  "textOf (Text t) = t"
| "textOf (Comment c) = []"
| "textOf (Element tag attrs cs) = concat (map textOf cs)"

definition textAll :: "node list \<Rightarrow> string" where
  "textAll ns = concat (map textOf ns)"

text \<open>The elements among the given nodes and their descendants that satisfy \<open>P\<close>, in document
  order: \<^verbatim>\<open>$(selector)\<close> on the document, \<^verbatim>\<open>.find(selector)\<close> on the children of a node.\<close>

fun findAll :: "(node \<Rightarrow> bool) \<Rightarrow> node list \<Rightarrow> node list" where
  "findAll P [] = []"
| "findAll P (Element tag attrs cs # rest) =
     (if P (Element tag attrs cs) then [Element tag attrs cs] else [])
       @ findAll P cs @ findAll P rest"
| "findAll P (n # rest) = findAll P rest"

text \<open>The descendant selector \<^verbatim>\<open>a b\<close>: the \<open>b\<close> elements that lie below an \<open>a\<close> element of
  the searched nodes; \<open>inside\<close> tells whether such an ancestor has been passed.\<close>

fun findBelow :: "string \<Rightarrow> string \<Rightarrow> bool \<Rightarrow> node list \<Rightarrow> node list" where
  "findBelow a b inside [] = []"
| "findBelow a b inside (Element tag attrs cs # rest) =
     (if inside \<and> tag = b then [Element tag attrs cs] else [])
       @ findBelow a b (inside \<or> tag = a) cs @ findBelow a b inside rest"
| "findBelow a b inside (n # rest) = findBelow a b inside rest"

text \<open>
  \<^verbatim>\<open>$(selector).filter(...).first()\<close> together with the position of the element found: the
  first element in document order that satisfies \<open>P\<close>, and the nodes that follow it under
  the same parent, which is where \<^verbatim>\<open>.next()\<close> walks.
\<close>

fun firstMatch :: "(node \<Rightarrow> bool) \<Rightarrow> node list \<Rightarrow> (node \<times> node list) option" where
  "firstMatch P [] = None"
| "firstMatch P (Element tag attrs cs # rest) =
     (if P (Element tag attrs cs) then Some (Element tag attrs cs, rest)
      else case firstMatch P cs of
             Some found \<Rightarrow> Some found
           | None \<Rightarrow> firstMatch P rest)"
| "firstMatch P (n # rest) = firstMatch P rest"

text \<open>The class selector and \<^verbatim>\<open>hasClass\<close>: the name is one of the words of the
  \<^verbatim>\<open>class\<close> attribute.\<close>

fun splitSpaces :: "string \<Rightarrow> string \<Rightarrow> string list" where
  "splitSpaces [] w = (if w = [] then [] else [w])"
| "splitSpaces (c # cs) w =
     (if isSpace c then (if w = [] then [] else [w]) @ splitSpaces cs []
      else splitSpaces cs (w @ [c]))"

definition hasClass :: "string \<Rightarrow> node \<Rightarrow> bool" where
  "hasClass c n = (case attr ''class'' n of None \<Rightarrow> False | Some v \<Rightarrow> c \<in> set (splitSpaces v []))"

text \<open>The heading test of both extractors:
  \<^verbatim>\<open>$(el).text().toLowerCase().includes(semesterLabel.toLowerCase())\<close>.\<close>

definition mentions :: "string \<Rightarrow> node \<Rightarrow> bool" where
  "mentions semesterLabel el = str_includes (toLowerCase (textOf el)) (toLowerCase semesterLabel)"

section \<open>The assessment extractor\<close>

subsection \<open>parseSemesterEmails\<close>

text \<open>
  The loop over \<^verbatim>\<open>node = node.next()\<close>: \<^verbatim>\<open>.next()\<close> gives the following sibling that
  is an element, so other nodes are passed over. The loop stops at end of the siblings or
  at a sibling that is an \<^verbatim>\<open>h5\<close>, \<^verbatim>\<open>h3\<close> or \<^verbatim>\<open>h2\<close>.
\<close>

definition stopsEmails :: "node \<Rightarrow> bool" where
  "stopsEmails n = (isTag ''h5'' n \<or> isTag ''h3'' n \<or> isTag ''h2'' n)"

fun emailsWalk :: "node list \<Rightarrow> string list \<Rightarrow> string list" where
  "emailsWalk [] emails = emails"
| "emailsWalk (n # siblings) emails =
     (if \<not> isElement n then emailsWalk siblings emails
      else if stopsEmails n then emails
      else emailsWalk siblings
             (foldl (\<lambda>acc email. set_add email acc) emails (extractEmails (textOf n))))"

definition parseSemesterEmails :: "document \<Rightarrow> string \<Rightarrow> string list" where
  "parseSemesterEmails doc semesterLabel =
     (case firstMatch (\<lambda>el. isTag ''h5'' el \<and> mentions semesterLabel el) doc of
        None \<Rightarrow> []
      | Some (semesterHeading, siblings) \<Rightarrow> emailsWalk siblings [])"

subsection \<open>parseAssessmentTables\<close>

text \<open>
  A row is the object \<^verbatim>\<open>rowData\<close>, kept as the list of its keys with their cells. An
  assignment \<^verbatim>\<open>rowData[key] = v\<close> overwrites an existing key and adds a new one; the key
  \<^verbatim>\<open>__proto__\<close> names the prototype accessor, whose setter ignores a string. The order
  in which a JavaScript object enumerates its keys is not modelled.
\<close>

record assessmentTable =
  columns :: "string list"
  rows :: "(string \<times> string) list list"

fun obj_set :: "string \<Rightarrow> string \<Rightarrow> (string \<times> string) list \<Rightarrow> (string \<times> string) list" where
  "obj_set k v [] = (if k = ''__proto__'' then [] else [(k, v)])"
| "obj_set k v ((k', v') # kvs) = (if k = k' then (k, v) # kvs else (k', v') # obj_set k v kvs)"

text \<open>Decimal digits of a number, for the placeholder \<^verbatim>\<open>Column N\<close>.\<close>

fun decimal :: "nat \<Rightarrow> string" where
  "decimal n = (if n < 10 then [char_of (48 + n)] else decimal (n div 10) @ [char_of (48 + n mod 10)])"

declare decimal.simps [simp del]

text \<open>The cells of one row: \<^verbatim>\<open>headers[index] || `Column ${index + 1}`\<close> takes the
  placeholder when the header is missing or empty.\<close>

fun rowOf :: "string list \<Rightarrow> nat \<Rightarrow> node list \<Rightarrow> (string \<times> string) list \<Rightarrow> (string \<times> string) list" where
  "rowOf headers index [] rowData = rowData"
| "rowOf headers index (cell # cells) rowData =
     (let key = (if index < length headers \<and> headers ! index \<noteq> [] then headers ! index
                 else ''Column '' @ decimal (index + 1))
      in rowOf headers (index + 1) cells (obj_set key (cleanText (textOf cell)) rowData))"

definition tableHeaders :: "node \<Rightarrow> string list" where
  "tableHeaders tbl =
     (let headers = map (\<lambda>th. cleanText (textOf th)) (findBelow ''thead'' ''th'' False (children tbl))
      in if headers = [] then
           (case findAll (isTag ''tr'') (children tbl) of
              [] \<Rightarrow> []
            | tr # _ \<Rightarrow> map (\<lambda>cell. cleanText (textOf cell))
                          (findAll (\<lambda>n. isTag ''th'' n \<or> isTag ''td'' n) (children tr)))
         else headers)"

fun tableRows :: "string list \<Rightarrow> node list \<Rightarrow> (string \<times> string) list list \<Rightarrow> (string \<times> string) list list" where
  "tableRows headers [] rs = rs"
| "tableRows headers (row # trs) rs =
     (let cells = findAll (isTag ''td'') (children row)
      in if cells = [] then tableRows headers trs rs
         else tableRows headers trs (rs @ [rowOf headers 0 cells []]))"

definition stopsTables :: "node \<Rightarrow> bool" where
  "stopsTables n = (isTag ''h2'' n \<or> isTag ''h3'' n \<or> isTag ''h4'' n)"

fun tablesWalk :: "node list \<Rightarrow> assessmentTable list \<Rightarrow> assessmentTable list" where
  "tablesWalk [] tables = tables"
| "tablesWalk (n # siblings) tables =
     (if \<not> isElement n then tablesWalk siblings tables
      else if stopsTables n then tables
      else if isTag ''table'' n then
        (let headers = tableHeaders n;
             rs = tableRows headers (findBelow ''tbody'' ''tr'' False (children n)) []
         in if rs \<noteq> [] then tablesWalk siblings (tables @ [\<lparr>columns = headers, rows = rs\<rparr>])
            else tablesWalk siblings tables)
      else tablesWalk siblings tables)"

definition parseAssessmentTables :: "document \<Rightarrow> string \<Rightarrow> assessmentTable list" where
  "parseAssessmentTables doc semesterLabel =
     (case firstMatch (\<lambda>el. (isTag ''h3'' el \<or> isTag ''h4'' el) \<and> mentions semesterLabel el) doc of
        None \<Rightarrow> []
      | Some (heading, siblings) \<Rightarrow> tablesWalk siblings [])"


section \<open>The search-result parser and the subject-detail extractor\<close>

text \<open>
  \<^verbatim>\<open>String.prototype.toUpperCase\<close> leads out of the Latin-1 range: the capital of
  \<^verbatim>\<open>0xB5\<close> is \<^verbatim>\<open>U+039C\<close>, that of \<^verbatim>\<open>0xFF\<close> is \<^verbatim>\<open>U+0178\<close>, and \<^verbatim>\<open>0xDF\<close> becomes
  the two letters \<^verbatim>\<open>SS\<close>. A subject code is therefore a list of code units as numbers;
  \<open>wide\<close> reads a string as such a list. The letters \<^verbatim>\<open>a-z\<close> and the accented small
  letters \<^verbatim>\<open>0xE0-0xFE\<close> (without the division sign \<^verbatim>\<open>0xF7\<close>) move down by 32.
  \<open>toLowerCaseW\<close> is \<^verbatim>\<open>toLowerCase\<close> on the code units that a code can hold, the
  capitals above among them.
\<close>

type_synonym wstring = "nat list"

definition wide :: "string \<Rightarrow> wstring" where
  "wide s = map of_char s"

definition toUpperUnits :: "char \<Rightarrow> wstring" where
  "toUpperUnits c =
     (let n = (of_char c :: nat)
      in if (97 \<le> n \<and> n \<le> 122) \<or> (224 \<le> n \<and> n \<le> 254 \<and> n \<noteq> 247) then [n - 32]
         else if n = 223 then [83, 83]
         else if n = 181 then [924]
         else if n = 255 then [376]
         else [n])"

definition toUpperCase :: "string \<Rightarrow> wstring" where
  "toUpperCase s = concat (map toUpperUnits s)"

definition toLowerUnit :: "nat \<Rightarrow> nat" where
  "toLowerUnit n =
     (if (65 \<le> n \<and> n \<le> 90) \<or> (192 \<le> n \<and> n \<le> 222 \<and> n \<noteq> 215) then n + 32
      else if n = 924 then 956
      else if n = 376 then 255
      else n)"

definition toLowerCaseW :: "wstring \<Rightarrow> wstring" where
  "toLowerCaseW s = map toLowerUnit s"

text \<open>\<^verbatim>\<open>s.replace(sub, '')\<close> with a string pattern removes the first occurrence.\<close>

fun removeFirst :: "string \<Rightarrow> string \<Rightarrow> string" where
  "removeFirst [] sub = []"
| "removeFirst (x # xs) sub =
     (if take (length sub) (x # xs) = sub then drop (length sub) (x # xs)
      else x # removeFirst xs sub)"

text \<open>\<^verbatim>\<open>s.split(/re/)\<close> for a pattern that matches no empty string: the pieces between
  the matches.\<close>

fun pieces :: "(string + char) list \<Rightarrow> string \<Rightarrow> string list" where
  "pieces [] piece = [piece]"
| "pieces (Inr c # ts) piece = pieces ts (piece @ [c])"
| "pieces (Inl m # ts) piece = piece # pieces ts []"

definition split :: "atom list \<Rightarrow> string \<Rightarrow> string list" where
  "split re s = pieces (scan re s) []"

text \<open>
  A stub of the search page and a record of the artifact both carry \<^verbatim>\<open>code\<close> and
  \<^verbatim>\<open>name\<close>; \<open>named\<close> holds the two fields, and both records extend it. \<^verbatim>\<open>href\<close> is
  \<open>None\<close> when \<^verbatim>\<open>.attr('href')\<close> is undefined. \<open>parseItem\<close> is the body of the
  \<^verbatim>\<open>each\<close> callback of \<^verbatim>\<open>parseSearchPage\<close>: the stub pushed for one result item, or
  nothing when the item has no code.
\<close>

record named =
  code :: wstring
  name :: string

record stub = named +
  href :: "string option"
  offered :: string

definition parseItem :: "node \<Rightarrow> stub list" where
  "parseItem item =
     (let c = cleanText (textAll (findAll (hasClass ''search-result-item__code'') (children item)))
      in if c = [] then []
         else
           let nameText = cleanText (textAll (findAll (hasClass ''search-result-item__name'') (children item)));
               stripped = cleanText (removeFirst nameText c);
               anchors = findAll (\<lambda>n. isTag ''a'' n \<and> hasClass ''search-result-item__anchor'' n) (children item);
               link = (case anchors of [] \<Rightarrow> None | a # _ \<Rightarrow> attr ''href'' a);
               meta = cleanText (textAll (findAll (hasClass ''search-result-item__meta-primary'') (children item)))
           in [\<lparr>code = toUpperCase c,
                name = (if stripped = [] then nameText else stripped),
                href = link,
                offered = meta\<rparr>])"

definition parseSearchPage :: "document \<Rightarrow> stub list" where
  "parseSearchPage doc = concat (map parseItem (findAll (hasClass ''search-result-item'') doc))"

text \<open>\<open>overviewParts\<close> is the body of the \<^verbatim>\<open>each\<close> callback of \<^verbatim>\<open>parseOverview\<close>: the
  paragraphs that one child of the wrapper contributes.\<close>

definition overviewParts :: "node \<Rightarrow> string list" where
  "overviewParts child =
     (if hasClass ''course__overview-box'' child then []
      else
        let t = cleanText (textOf child)
        in if t = [] then []
           else filter (\<lambda>chunk. chunk \<noteq> [])
                  (map cleanText (split [One isNewline, Many 1 isNewline] t)))"

definition parseOverview :: "document \<Rightarrow> string list" where
  "parseOverview doc =
     (case findAll (hasClass ''course__overview-wrapper'') doc of
        [] \<Rightarrow> []
      | wrapper # _ \<Rightarrow> concat (map overviewParts (filter isElement (children wrapper))))"

definition parseAvailability :: "document \<Rightarrow> string" where
  "parseAvailability doc = cleanText (textAll (findAll (hasClass ''course__overview-box'') doc))"

section \<open>The crawl orchestrator\<close>

text \<open>The JavaScript \<^verbatim>\<open>Map\<close> keyed by subject code, as the list of its entries in
  insertion order: \<^verbatim>\<open>set\<close> replaces the value of a key that is present, in place, and
  appends a new key.\<close>

fun Map_set :: "'k \<Rightarrow> 'v \<Rightarrow> ('k \<times> 'v) list \<Rightarrow> ('k \<times> 'v) list" where
  "Map_set k v [] = [(k, v)]"
| "Map_set k v ((k', v') # kvs) = (if k = k' then (k, v) # kvs else (k', v') # Map_set k v kvs)"

definition uniqueItems :: "stub list \<Rightarrow> (wstring \<times> stub) list" where
  "uniqueItems searchItems =
     foldl (\<lambda>m item. if code item \<noteq> [] then Map_set (code item) item m else m) [] searchItems"

definition dedup :: "stub list \<Rightarrow> stub list" where
  "dedup searchItems = map snd (uniqueItems searchItems)"

text \<open>
  The records of the artifact. Of the block \<^verbatim>\<open>source\<close> of the snapshot, which holds the
  search URL and two constants, the URL is kept as \<open>searchUrl\<close>.
\<close>

record assessment =
  tables :: "assessmentTable list"

record urls =
  subjectUrl :: string
  assessmentUrl :: string

record subjectRecord = named +
  year :: nat
  studyPeriod :: string
  creditPoints :: "real option"
  overview :: "string list"
  assessment :: assessment
  instructorEmails :: "string list"
  availability :: string
  source :: urls

record stats =
  totalFound :: nat
  totalSaved :: nat
  skipped :: nat

record snapshot =
  generatedAt :: string
  version :: string
  searchUrl :: string
  stats :: stats
  items :: "subjectRecord list"

text \<open>
  What the crawl takes from outside the program: the configuration read from the command
  line, and the platform. \<open>web url k\<close> is the answer of the site to the \<open>k\<close>-th request of
  one \<^verbatim>\<open>fetchWithRetry\<close> call for \<open>url\<close>; \<open>load\<close> is \<^verbatim>\<open>cheerio.load\<close>;
  \<open>pageUrls\<close> is \<^verbatim>\<open>new URL(searchUrl)\<close> with the \<^verbatim>\<open>page\<close> parameter set, \<open>None\<close> when
  the constructor throws; \<open>buildUrl\<close> is \<^verbatim>\<open>new URL(href, baseUrl).toString()\<close>, \<open>None\<close>
  when it throws (its argument may hold a code, its result is ASCII);
  \<open>finiteNumber\<close> is \<^verbatim>\<open>Number(s)\<close> when that is finite;
  \<open>localeCompare\<close> is the collation of the platform; \<open>digest\<close> is the hexadecimal
  SHA-256 of \<^verbatim>\<open>JSON.stringify(results)\<close>; \<open>argumentLimit\<close> is the number of arguments
  that a call can take. \<open>maxPagesArg\<close> is the option \<^verbatim>\<open>--max-pages\<close> when it is an
  integer, and 0 when it is absent or not a number.
\<close>

record config =
  searchUrlArg :: string
  maxPagesArg :: int
  onlySemester1 :: bool

record env =
  web :: "string \<Rightarrow> nat \<Rightarrow> response"
  load :: "string \<Rightarrow> document"
  pageUrls :: "string \<Rightarrow> (nat \<Rightarrow> string) option"
  buildUrl :: "wstring \<Rightarrow> string option"
  finiteNumber :: "string \<Rightarrow> real option"
  localeCompare :: "wstring \<Rightarrow> wstring \<Rightarrow> int"
  digest :: "subjectRecord list \<Rightarrow> string"
  argumentLimit :: int

definition fetchText :: "env \<Rightarrow> string \<Rightarrow> error + string" where
  "fetchText e url = result (fetchWithRetry (web e url) 3)"

text \<open>
  The pagination loop of \<^verbatim>\<open>run\<close>; a request that fails after its retries ends the run
  with that error. The bound \<^verbatim>\<open>maxPage\<close> is an integer or, when a token of the first
  page reads as \<^verbatim>\<open>Infinity\<close>, no bound at all; then the loop ends only at a page
  without stubs or at a failed request, and need not end. The counter is a double as
  well: \<^verbatim>\<open>page += 1\<close> adds one up to \<open>2\<^sup>5\<^sup>3\<close> and leaves that number as it is, so a
  bound from there on is never passed either. So the loop is a partial function:
  \<open>None\<close> is the run that does not return.
\<close>

definition nextPage :: "nat \<Rightarrow> nat" where
  "nextPage page = (if int page < 9007199254740992 then page + 1 else page)"

datatype bound = Upto int | Unbounded

fun inBound :: "nat \<Rightarrow> bound \<Rightarrow> bool" where
  "inBound page (Upto maxPage) = (int page \<le> maxPage)"
| "inBound page Unbounded = True"

partial_function (option) paginate ::
  "env \<Rightarrow> (nat \<Rightarrow> string) \<Rightarrow> string \<Rightarrow> nat \<Rightarrow> bound \<Rightarrow> stub list \<Rightarrow> (error + stub list) option" where
  "paginate e pageUrl firstPageHtml page maxPage searchItems =
     (if inBound page maxPage then
        (case (if page = 1 then Inr firstPageHtml else fetchText e (pageUrl page)) of
           Inl err \<Rightarrow> Some (Inl err)
         | Inr html \<Rightarrow>
             (let found = parseSearchPage (load e html)
              in if found = [] then Some (Inr searchItems)
                 else paginate e pageUrl firstPageHtml (nextPage page) maxPage (searchItems @ found)))
      else Some (Inr searchItems))"

declare paginate.simps [code]

text \<open>\<^verbatim>\<open>maxPagesArg || parseMaxPage(firstPageHtml)\<close>: the first page is parsed for its
  tokens only when the option is 0.\<close>

definition maxPageOf :: "config \<Rightarrow> env \<Rightarrow> string \<Rightarrow> error + bound" where
  "maxPageOf cfg e firstPageHtml =
     (if maxPagesArg cfg \<noteq> 0 then Inr (Upto (maxPagesArg cfg))
      else case parseMaxPage (argumentLimit e) firstPageHtml of
             Inl err \<Rightarrow> Inl err
           | Inr n \<Rightarrow> Inr (case n of enat k \<Rightarrow> Upto (int k) | \<infinity> \<Rightarrow> Unbounded))"

text \<open>The first part of \<^verbatim>\<open>run\<close>, up to \<^verbatim>\<open>itemsList\<close>.\<close>

definition candidates :: "config \<Rightarrow> env \<Rightarrow> (error + stub list) option" where
  "candidates cfg e =
     (case pageUrls e (searchUrlArg cfg) of
        None \<Rightarrow> Some (Inl InvalidUrl)
      | Some pageUrl \<Rightarrow>
          (case fetchText e (pageUrl 1) of
             Inl err \<Rightarrow> Some (Inl err)
           | Inr firstPageHtml \<Rightarrow>
               (case maxPageOf cfg e firstPageHtml of
                  Inl err \<Rightarrow> Some (Inl err)
                | Inr maxPage \<Rightarrow>
                    (case paginate e pageUrl firstPageHtml 1 maxPage [] of
                       None \<Rightarrow> None
                     | Some (Inl err) \<Rightarrow> Some (Inl err)
                     | Some (Inr searchItems) \<Rightarrow> Some (Inr (dedup searchItems))))))"

text \<open>The stubs that the loop takes from the search page of a given number.\<close>

definition pageStubs :: "env \<Rightarrow> (nat \<Rightarrow> string) \<Rightarrow> string \<Rightarrow> nat \<Rightarrow> stub list" where
  "pageStubs e pageUrl firstPageHtml page =
     (case (if page = 1 then Inr firstPageHtml else fetchText e (pageUrl page)) of
        Inl err \<Rightarrow> []
      | Inr html \<Rightarrow> parseSearchPage (load e html))"


text \<open>
  The worker that \<^verbatim>\<open>asyncPool\<close> runs for one candidate. It acts on the three variables
  that the workers share: the counters \<^verbatim>\<open>processed\<close> and \<^verbatim>\<open>skipped\<close> (here
  \<open>skippedCount\<close>, the name \<open>skipped\<close> being the field of the statistics) and the list
  \<^verbatim>\<open>results\<close>. The only exception that leaves the worker is the one of \<^verbatim>\<open>buildUrl\<close>;
  it rejects the pool and ends the run.
\<close>

record pool =
  processed :: nat
  skippedCount :: nat
  results :: "subjectRecord list"

definition sem1Re :: "atom list" where
  "sem1Re = liti ''semester'' @ [Many 0 isSpace, One (\<lambda>c. c = CHR ''1'')]"

text \<open>\<^verbatim>\<open>subjectUrl.replace(/\/$/, '')\<close> removes one slash at the end.\<close>

definition stripSlash :: "string \<Rightarrow> string" where
  "stripSlash s = (if s \<noteq> [] \<and> last s = CHR ''/'' then butlast s else s)"

definition pointsOf :: "env \<Rightarrow> document \<Rightarrow> real option" where
  "pointsOf e doc =
     (case findAll (\<lambda>n. isTag ''meta'' n \<and> attr ''name'' n = Some ''points'') doc of
        [] \<Rightarrow> None
      | m # _ \<Rightarrow>
          (case attr ''content'' m of
             None \<Rightarrow> None
           | Some pointsMeta \<Rightarrow> if pointsMeta = [] then None else finiteNumber e pointsMeta))"

definition subjectUrlOf :: "env \<Rightarrow> stub \<Rightarrow> string option" where
  "subjectUrlOf e item =
     buildUrl e (case href item of
                   Some h \<Rightarrow> if h \<noteq> [] then wide h
                             else wide ''/2026/subjects/'' @ toLowerCaseW (code item)
                 | None \<Rightarrow> wide ''/2026/subjects/'' @ toLowerCaseW (code item))"

text \<open>The assessment page, then the dates page when no email was found; a failed request
  leaves what was there.\<close>

definition assessmentOf :: "env \<Rightarrow> string \<Rightarrow> assessmentTable list \<times> string list" where
  "assessmentOf e url =
     (case fetchText e (stripSlash url @ ''/assessment'') of
        Inl err \<Rightarrow> ([], [])
      | Inr assessmentHtml \<Rightarrow>
          (parseAssessmentTables (load e assessmentHtml) ''Semester 1'',
           parseSemesterEmails (load e assessmentHtml) ''Semester 1''))"

definition emailsOf :: "env \<Rightarrow> string \<Rightarrow> string list \<Rightarrow> string list" where
  "emailsOf e url emails =
     (if emails = [] then
        (case fetchText e (stripSlash url @ ''/dates-times'') of
           Inl err \<Rightarrow> emails
         | Inr datesHtml \<Rightarrow> parseSemesterEmails (load e datesHtml) ''Semester 1'')
      else emails)"

definition worker :: "config \<Rightarrow> env \<Rightarrow> stub \<Rightarrow> pool \<Rightarrow> error + pool" where
  "worker cfg e item st0 =
     (let st = st0\<lparr>processed := processed st0 + 1\<rparr>;
          sem1Hint = test sem1Re (offered item)
      in if onlySemester1 cfg \<and> offered item \<noteq> [] \<and> \<not> sem1Hint
         then Inr (st\<lparr>skippedCount := skippedCount st + 1\<rparr>)
         else
           (case subjectUrlOf e item of
              None \<Rightarrow> Inl InvalidUrl
            | Some url \<Rightarrow>
                (case fetchText e url of
                   Inl err \<Rightarrow> Inr st
                 | Inr subjectHtml \<Rightarrow>
                     (let doc = load e subjectHtml;
                          avail = parseAvailability doc
                      in if onlySemester1 cfg \<and> avail \<noteq> [] \<and> \<not> test sem1Re avail
                         then Inr (st\<lparr>skippedCount := skippedCount st + 1\<rparr>)
                         else
                           (let found = assessmentOf e url;
                                emails = emailsOf e url (snd found)
                            in Inr (st\<lparr>results := results st @
                                 [\<lparr>code = code item,
                                   name = name item,
                                   year = 2026,
                                   studyPeriod = ''Semester 1'',
                                   creditPoints = pointsOf e doc,
                                   overview = parseOverview doc,
                                   assessment = \<lparr>tables = fst found\<rparr>,
                                   instructorEmails = emails,
                                   availability = avail,
                                   source = \<lparr>subjectUrl = url,
                                             assessmentUrl = stripSlash url @ ''/assessment''\<rparr>\<rparr>]\<rparr>))))))"

text \<open>
  \<^verbatim>\<open>asyncPool\<close> starts the workers in the order of the list and lets them interleave at
  their \<^verbatim>\<open>await\<close> points. A worker reads nothing that another one writes, the counters
  are only incremented, and a record is appended when its worker completes; so the pool
  leaves the state that running the workers one after the other in their order of
  completion leaves. \<open>workers\<close> runs them in a given order.
\<close>

fun workers :: "config \<Rightarrow> env \<Rightarrow> stub list \<Rightarrow> pool \<Rightarrow> error + pool" where
  "workers cfg e [] st = Inr st"
| "workers cfg e (item # rest) st =
     (case worker cfg e item st of
        Inl err \<Rightarrow> Inl err
      | Inr st' \<Rightarrow> workers cfg e rest st')"

text \<open>\<^verbatim>\<open>results.sort((a, b) => a.code.localeCompare(b.code))\<close>: the sort of the platform
  is stable, which is what insertion from the right gives.\<close>

fun insort_code :: "(wstring \<Rightarrow> wstring \<Rightarrow> int) \<Rightarrow> subjectRecord \<Rightarrow> subjectRecord list \<Rightarrow> subjectRecord list" where
  "insort_code cmp r [] = [r]"
| "insort_code cmp r (x # xs) =
     (if cmp (code r) (code x) \<le> 0 then r # x # xs else x # insort_code cmp r xs)"

definition sort_code :: "(wstring \<Rightarrow> wstring \<Rightarrow> int) \<Rightarrow> subjectRecord list \<Rightarrow> subjectRecord list" where
  "sort_code cmp rs = foldr (insort_code cmp) rs []"

text \<open>
  \<^verbatim>\<open>run\<close>. The order in which the workers complete and the clock are not determined by
  the program: \<open>completion\<close> gives the order of completion of the candidates and \<open>now\<close> is
  \<^verbatim>\<open>new Date().toISOString()\<close>. The result is the snapshot written to the output file, or
  the error with which the process exits; \<open>None\<close> is the run whose pagination does not
  return.
\<close>

definition run ::
  "config \<Rightarrow> env \<Rightarrow> (stub list \<Rightarrow> stub list) \<Rightarrow> string \<Rightarrow> (error + snapshot) option" where
  "run cfg e completion now =
     (case candidates cfg e of
        None \<Rightarrow> None
      | Some (Inl err) \<Rightarrow> Some (Inl err)
      | Some (Inr itemsList) \<Rightarrow>
          (case workers cfg e (completion itemsList) \<lparr>processed = 0, skippedCount = 0, results = []\<rparr> of
             Inl err \<Rightarrow> Some (Inl err)
           | Inr st \<Rightarrow>
               (let sorted = sort_code (localeCompare e) (results st)
                in Some (Inr \<lparr>generatedAt = now,
                        version = take 12 (digest e sorted),
                        searchUrl = (case pageUrls e (searchUrlArg cfg) of
                                       Some pageUrl \<Rightarrow> pageUrl 1 | None \<Rightarrow> []),
                        stats = \<lparr>totalFound = length itemsList,
                                  totalSaved = length sorted,
                                  skipped = skippedCount st\<rparr>,
                        items = sorted\<rparr>))))"



subsection \<open>What happens to one candidate\<close>

text \<open>
  The four ways in which a worker ends, read off the candidate alone: it is rejected by
  one of the two semester checks, it is abandoned because the request for its detail page
  raised, it is saved with a record, or its URL is invalid and the run fails. These
  definitions do not mention the shared state; \<open>worker_outcome\<close> below shows that the
  worker acts on the state as they say.
\<close>

definition preFiltered :: "config \<Rightarrow> stub \<Rightarrow> bool" where
  "preFiltered cfg item =
     (onlySemester1 cfg \<and> offered item \<noteq> [] \<and> \<not> test sem1Re (offered item))"

definition detailFetchFailed :: "config \<Rightarrow> env \<Rightarrow> stub \<Rightarrow> bool" where
  "detailFetchFailed cfg e item =
     (\<not> preFiltered cfg item \<and>
      (case subjectUrlOf e item of None \<Rightarrow> False | Some url \<Rightarrow> isl (fetchText e url)))"

definition availabilityFiltered :: "config \<Rightarrow> env \<Rightarrow> stub \<Rightarrow> bool" where
  "availabilityFiltered cfg e item =
     (\<not> preFiltered cfg item \<and>
      (case subjectUrlOf e item of
         None \<Rightarrow> False
       | Some url \<Rightarrow>
           (case fetchText e url of
              Inl err \<Rightarrow> False
            | Inr subjectHtml \<Rightarrow>
                onlySemester1 cfg \<and> parseAvailability (load e subjectHtml) \<noteq> []
                \<and> \<not> test sem1Re (parseAvailability (load e subjectHtml)))))"

definition semesterRejected :: "config \<Rightarrow> env \<Rightarrow> stub \<Rightarrow> bool" where
  "semesterRejected cfg e item = (preFiltered cfg item \<or> availabilityFiltered cfg e item)"

definition urlInvalid :: "config \<Rightarrow> env \<Rightarrow> stub \<Rightarrow> bool" where
  "urlInvalid cfg e item = (\<not> preFiltered cfg item \<and> subjectUrlOf e item = None)"

definition recordOf :: "env \<Rightarrow> stub \<Rightarrow> string \<Rightarrow> string \<Rightarrow> subjectRecord" where
  "recordOf e item url subjectHtml =
     \<lparr>code = code item,
      name = name item,
      year = 2026,
      studyPeriod = ''Semester 1'',
      creditPoints = pointsOf e (load e subjectHtml),
      overview = parseOverview (load e subjectHtml),
      assessment = \<lparr>tables = fst (assessmentOf e url)\<rparr>,
      instructorEmails = emailsOf e url (snd (assessmentOf e url)),
      availability = parseAvailability (load e subjectHtml),
      source = \<lparr>subjectUrl = url, assessmentUrl = stripSlash url @ ''/assessment''\<rparr>\<rparr>"

definition savedRecord :: "config \<Rightarrow> env \<Rightarrow> stub \<Rightarrow> subjectRecord list" where
  "savedRecord cfg e item =
     (if semesterRejected cfg e item then []
      else case subjectUrlOf e item of
             None \<Rightarrow> []
           | Some url \<Rightarrow>
               (case fetchText e url of
                  Inl err \<Rightarrow> []
                | Inr subjectHtml \<Rightarrow> [recordOf e item url subjectHtml]))"

text \<open>
  The comparator of a sort is required to be consistent: any two strings are comparable
  and the comparison is transitive. Two strings tie when each comes before or with the
  other; a collation ties strings that differ only in characters it ignores, a soft
  hyphen for one.
\<close>

definition consistent :: "(wstring \<Rightarrow> wstring \<Rightarrow> int) \<Rightarrow> bool" where
  "consistent cmp =
     ((\<forall>a b. cmp a b \<le> 0 \<or> cmp b a \<le> 0)
      \<and> (\<forall>a b c. cmp a b \<le> 0 \<longrightarrow> cmp b c \<le> 0 \<longrightarrow> cmp a c \<le> 0))"



subsection \<open>A small site\<close>

text \<open>
  A site with one search page that lists four subjects, on which the definitions can be
  run: \<^verbatim>\<open>MAST10006\<close> and \<^verbatim>\<open>COMP10001\<close> are saved, \<^verbatim>\<open>PHYC10003\<close> is offered in
  semester 2 only, and the detail page of \<^verbatim>\<open>BIOL10008\<close> answers 503 to every request.
  The collation orders strings by their code units, the digest is a stand-in that
  concatenates the codes, URLs are taken as they are written, and a call takes 100000
  arguments.
\<close>

definition exampleSearchDoc :: document where
  "exampleSearchDoc =
     [Element ''ul'' []
        [Element ''li'' [(''class'', ''search-result-item'')]
           [Element ''a'' [(''class'', ''search-result-item__anchor''), (''href'', ''/mast10006'')]
              [Element ''span'' [(''class'', ''search-result-item__code'')] [Text ''mast10006''],
               Element ''span'' [(''class'', ''search-result-item__name'')] [Text ''mast10006 Calculus 2'']],
            Element ''div'' [(''class'', ''search-result-item__meta-primary'')] [Text ''Semester 1'']],
         Element ''li'' [(''class'', ''search-result-item'')]
           [Element ''a'' [(''class'', ''search-result-item__anchor''), (''href'', ''/comp10001'')]
              [Element ''span'' [(''class'', ''search-result-item__code'')] [Text ''COMP10001''],
               Element ''span'' [(''class'', ''search-result-item__name'')] [Text ''Foundations of Computing'']]],
         Element ''li'' [(''class'', ''search-result-item'')]
           [Element ''a'' [(''class'', ''search-result-item__anchor''), (''href'', ''/phyc10003'')]
              [Element ''span'' [(''class'', ''search-result-item__code'')] [Text ''PHYC10003'']],
            Element ''div'' [(''class'', ''search-result-item__meta-primary'')] [Text ''Semester 2'']],
         Element ''li'' [(''class'', ''search-result-item'')]
           [Element ''a'' [(''class'', ''search-result-item__anchor''), (''href'', ''/down'')]
              [Element ''span'' [(''class'', ''search-result-item__code'')] [Text ''BIOL10008'']]]],
      Element ''a'' [(''href'', ''?page=1'')] [Text ''1'']]"

definition exampleAssessmentDoc :: document where
  "exampleAssessmentDoc =
     [Element ''h3'' [] [Text ''Semester 1''],
      Element ''table'' []
        [Element ''thead'' [] [Element ''tr'' []
           [Element ''th'' [] [Text ''Assessment''], Element ''th'' [] [Text ''Weight'']]],
         Element ''tbody'' [] [Element ''tr'' []
           [Element ''td'' [] [Text ''Essay''], Element ''td'' [] [Text ''30%'']]]],
      Element ''h5'' [] [Text ''Semester 1 contacts''],
      Element ''p'' [] [Text ''Jane.Doe@unimelb.edu.au or jane.doe@unimelb.edu.au'']]"

definition exampleLoad :: "string \<Rightarrow> document" where
  "exampleLoad html =
     (if html = ''search page=1'' then exampleSearchDoc
      else if html = ''assessment'' then exampleAssessmentDoc
      else if html = ''subject'' then
        [Element ''div'' [(''class'', ''course__overview-wrapper'')]
           [Element ''p'' [] [Text ''An  overview.'']]]
      else [])"

definition exampleWeb :: "string \<Rightarrow> nat \<Rightarrow> response" where
  "exampleWeb url k =
     (if url = ''search?page=1'' then Response 200 (Some ''search page=1'')
      else if url = ''/mast10006'' \<or> url = ''/comp10001'' then Response 200 (Some ''subject'')
      else if url = ''/mast10006/assessment'' then Response 200 (Some ''assessment'')
      else if url = ''/down'' then Response 503 (Some ''busy'')
      else Response 404 (Some ''missing''))"

definition exampleCompare :: "wstring \<Rightarrow> wstring \<Rightarrow> int" where
  "exampleCompare a b = (if a < b then - 1 else if a = b then 0 else 1)"

definition exampleEnv :: env where
  "exampleEnv =
     \<lparr>web = exampleWeb,
      load = exampleLoad,
      pageUrls = (\<lambda>u. Some (\<lambda>page. u @ ''?page='' @ decimal page)),
      buildUrl = (\<lambda>h. Some (map char_of h)),
      finiteNumber = (\<lambda>s. None),
      localeCompare = exampleCompare,
      digest = (\<lambda>rs. map char_of (concat (map code rs))),
      argumentLimit = 100000\<rparr>"

definition exampleConfig :: config where
  "exampleConfig = \<lparr>searchUrlArg = ''search'', maxPagesArg = 0, onlySemester1 = True\<rparr>"

definition exampleSnapshot :: snapshot where
  "exampleSnapshot =
     \<lparr>generatedAt = ''2026-01-01T00:00:00.000Z'',
      version = ''COMP10001MAS'',
      searchUrl = ''search?page=1'',
      stats = \<lparr>totalFound = 4, totalSaved = 2, skipped = 1\<rparr>,
      items =
        [\<lparr>code = wide ''COMP10001'', name = ''Foundations of Computing'',
          year = 2026, studyPeriod = ''Semester 1'',
          creditPoints = None, overview = [''An overview.''],
          assessment = \<lparr>tables = []\<rparr>,
          instructorEmails = [],
          availability = [],
          source = \<lparr>subjectUrl = ''/comp10001'',
                    assessmentUrl = ''/comp10001/assessment''\<rparr>\<rparr>,
         \<lparr>code = wide ''MAST10006'', name = ''Calculus 2'',
          year = 2026, studyPeriod = ''Semester 1'',
          creditPoints = None, overview = [''An overview.''],
          assessment =
            \<lparr>tables = [\<lparr>columns = [''Assessment'', ''Weight''],
                         rows = [[(''Assessment'', ''Essay''), (''Weight'', ''30%'')]]\<rparr>]\<rparr>,
          instructorEmails = [''Jane.Doe@unimelb.edu.au'', ''jane.doe@unimelb.edu.au''],
          availability = [],
          source = \<lparr>subjectUrl = ''/mast10006'',
                    assessmentUrl = ''/mast10006/assessment''\<rparr>\<rparr>]\<rparr>"


definition hyphenBlindCompare :: "wstring \<Rightarrow> wstring \<Rightarrow> int" where
  "hyphenBlindCompare a b =
     exampleCompare (filter (\<lambda>u. u \<noteq> 173) a) (filter (\<lambda>u. u \<noteq> 173) b)"



section \<open>Properties of the fetcher\<close>





lemma attempt_once_retryable: "isl (attempt_once r) = retryable r"
  by (cases r) (auto simp: retryable_def response_text_def ok_def split: option.splits)

lemma attempt_once_body:
  "\<not> (status \<ge> 500 \<or> status = 429) \<Longrightarrow> attempt_once (Response status (Some b)) = Inr b"
  by (simp add: response_text_def)

lemma fetchLoop_step:
  "a \<le> r \<Longrightarrow>
   fetchLoop server r a c sl =
     (case attempt_once (server c) of
        Inr body \<Rightarrow> \<lparr>result = Inr body, attempts = Suc c, sleeps = sl\<rparr>
      | Inl err \<Rightarrow>
          if a + 1 > r then \<lparr>result = Inl err, attempts = Suc c, sleeps = sl\<rparr>
          else fetchLoop server r (a + 1) (Suc c) (sl @ [500 * (a + 1)]))"
  by (subst fetchLoop.simps) simp

lemma fetchLoop_last:
  "a \<le> r \<Longrightarrow>
   c < attempts (fetchLoop server r a c sl)
   \<and> attempts (fetchLoop server r a c sl) \<le> c + nat (r - a) + 1
   \<and> result (fetchLoop server r a c sl)
       = attempt_once (server (attempts (fetchLoop server r a c sl) - 1))
   \<and> (\<forall>k. c \<le> k \<and> k < attempts (fetchLoop server r a c sl) - 1 \<longrightarrow> retryable (server k))
   \<and> (isl (result (fetchLoop server r a c sl))
        \<longrightarrow> attempts (fetchLoop server r a c sl) = c + nat (r - a) + 1)"
proof (induction "nat (r - a)" arbitrary: a c sl)
  case 0
  then have ar: "a = r" by simp
  show ?case
  proof (cases "attempt_once (server c)")
    case (Inl err)
    then show ?thesis unfolding fetchLoop_step[OF "0.prems"] by (auto simp: ar)
  next
    case (Inr body)
    then show ?thesis unfolding fetchLoop_step[OF "0.prems"] by (auto simp: ar)
  qed
next
  case (Suc n)
  then have lt: "a < r" by linarith
  have n: "n = nat (r - (a + 1))" using Suc.hyps(2) by linarith
  have le: "a + 1 \<le> r" using lt by simp
  note IH = Suc.hyps(1)[OF n le, of "Suc c" "sl @ [500 * (a + 1)]"]
  show ?case
  proof (cases "attempt_once (server c)")
    case (Inr body)
    then show ?thesis unfolding fetchLoop_step[OF Suc.prems] by auto
  next
    case (Inl err)
    then have rt: "retryable (server c)" using attempt_once_retryable[of "server c"] by simp
    have step: "fetchLoop server r a c sl =
        fetchLoop server r (a + 1) (Suc c) (sl @ [500 * (a + 1)])"
      unfolding fetchLoop_step[OF Suc.prems] using lt Inl by simp
    have cnt: "Suc c + nat (r - (a + 1)) + 1 = c + nat (r - a) + 1" using lt by linarith
    have k: "\<And>k. c \<le> k \<Longrightarrow> k = c \<or> Suc c \<le> k" by linarith
    show ?thesis
      unfolding step using IH rt k unfolding cnt by (metis Suc_lessD)
  qed
qed

lemma fetchWithRetry_negative:
  "retries < 0 \<Longrightarrow>
   fetchWithRetry server retries = \<lparr>result = Inr [], attempts = 0, sleeps = []\<rparr>"
  unfolding fetchWithRetry_def by (subst fetchLoop.simps) simp

text \<open>
  Claim C3. For \<open>retries \<ge> 0\<close> the call sends at least one request, and it raises exactly
  when the answer to its last request is retryable: a transport-level failure, a status of
  500 or more, or the status 429. It raises only when the retries are used up. When the
  last answer has any other status, 404 for one, the call returns the body of that answer;
  and every request before the last one had a retryable answer, so a request with another
  status is never followed by a retry. (With \<open>retries < 0\<close> no request is sent and the
  empty string is returned, \<open>fetchWithRetry_negative\<close>.)
\<close>

theorem C3_raises_iff_last_retryable:
  assumes "0 \<le> retries"
  shows "let f = fetchWithRetry server retries;
             final = server (attempts f - 1)
         in 1 \<le> attempts f
            \<and> (isl (result f) \<longleftrightarrow> retryable final)
            \<and> (isl (result f) \<longrightarrow> attempts f = nat retries + 1)
            \<and> (\<forall>status body. final = Response status (Some body) \<and> status < 500 \<and> status \<noteq> 429
                  \<longrightarrow> result f = Inr body)
            \<and> (\<forall>k. k < attempts f - 1 \<longrightarrow> retryable (server k))"
proof -
  define f where "f = fetchWithRetry server retries"
  have f: "fetchLoop server retries 0 0 [] = f" by (simp add: f_def fetchWithRetry_def)
  have L: "0 < attempts f" "result f = attempt_once (server (attempts f - 1))"
      "\<forall>k. 0 \<le> k \<and> k < attempts f - 1 \<longrightarrow> retryable (server k)"
      "isl (result f) \<longrightarrow> attempts f = 0 + nat (retries - 0) + 1"
    using fetchLoop_last[OF assms, where c=0 and server=server and sl="[]"] unfolding f by blast+
  have a: "1 \<le> attempts f" using L(1) by simp
  have b: "isl (result f) \<longleftrightarrow> retryable (server (attempts f - 1))"
    using L(2) attempt_once_retryable by simp
  have c: "isl (result f) \<longrightarrow> attempts f = nat retries + 1" using L(4) by simp
  have d: "\<forall>status body. server (attempts f - 1) = Response status (Some body)
             \<and> status < 500 \<and> status \<noteq> 429 \<longrightarrow> result f = Inr body"
    using L(2) by (auto simp: response_text_def)
  have e: "\<forall>k. k < attempts f - 1 \<longrightarrow> retryable (server k)" using L(3) by simp
  show ?thesis using a b c d e unfolding f_def[symmetric] Let_def by blast
qed

theorem C3_raises_iff_last_retryable_witness:
  "(0::int) \<le> 3 \<and>
   result (fetchWithRetry (\<lambda>k. Response 404 (Some ''not found'')) 3) = Inr ''not found'' \<and>
   attempts (fetchWithRetry (\<lambda>k. Response 404 (Some ''not found'')) 3) = 1"
proof -
  have h: "(0::int) \<le> 3" by simp
  have one: "attempts (fetchWithRetry (\<lambda>k. Response 404 (Some ''not found'')) 3) = 1"
    by (simp add: fetchWithRetry_def fetchLoop.simps ok_def response_text_def)
  show ?thesis
    using C3_raises_iff_last_retryable[OF h, of "\<lambda>k. Response 404 (Some ''not found'')"] one
    by (simp add: Let_def)
qed


section \<open>Properties of the text functions\<close>

lemma first_some_total:
  "first_some (\<lambda>k. Some (f k)) xs = (case xs of [] \<Rightarrow> None | x # _ \<Rightarrow> Some (f x))"
  by (cases xs) auto

lemma matchAt_Many_last:
  "matchAt [Many n c] s =
     (if n \<le> length (takeWhile c s) then Some (length (takeWhile c s)) else None)"
proof (cases "n \<le> length (takeWhile c s)")
  case True
  then have "rev [n ..< Suc (length (takeWhile c s))] = length (takeWhile c s) # rev [n ..< length (takeWhile c s)]"
    by simp
  then show ?thesis using True by (simp add: first_some_total)
next
  case False
  then show ?thesis by (simp add: first_some_total)
qed


lemma replaceAll_Nil: "matchAt re [] = None \<Longrightarrow> replaceAll re rep [] = []"
  by (simp add: replaceAll_def scan.simps[of re "[]"])

lemma replaceAll_skip:
  "matchAt re (x # xs) = None \<Longrightarrow> replaceAll re rep (x # xs) = x # replaceAll re rep xs"
  by (simp add: replaceAll_def scan.simps[of re "x # xs"])

lemma replaceAll_match:
  "matchAt re s = Some k \<Longrightarrow> k \<noteq> 0 \<Longrightarrow> replaceAll re rep s = rep @ replaceAll re rep (drop k s)"
  by (simp add: replaceAll_def scan.simps[of re s])

lemma first_some_NoneD: "first_some f xs = None \<Longrightarrow> x \<in> set xs \<Longrightarrow> f x = None"
  by (induction xs) (auto split: option.splits)

lemma first_some_first:
  "first_some f xs = Some y \<Longrightarrow>
   \<exists>pre x post. xs = pre @ x # post \<and> f x = Some y \<and> (\<forall>z \<in> set pre. f z = None)"
proof (induction xs)
  case Nil
  then show ?case by simp
next
  case (Cons a xs)
  show ?case
  proof (cases "f a")
    case None
    with Cons obtain pre x post where "xs = pre @ x # post" "f x = Some y" "\<forall>z \<in> set pre. f z = None"
      by auto
    then have "a # xs = (a # pre) @ x # post \<and> f x = Some y \<and> (\<forall>z \<in> set (a # pre). f z = None)"
      using None by simp
    then show ?thesis by blast
  next
    case (Some b)
    then have "a # xs = [] @ a # xs \<and> f a = Some y \<and> (\<forall>z \<in> set []. f z = None)"
      using Cons.prems by simp
    then show ?thesis by blast
  qed
qed

lemma matchAt_nl: "matchAt [One isNewline] s = (case s of [] \<Rightarrow> None | x # _ \<Rightarrow> if isNewline x then Some 1 else None)"
  by (cases s) auto

lemma match1_unfold:
  "matchAt [Many 1 isSpace, One isNewline] s =
     first_some (\<lambda>k. map_option (\<lambda>m. k + m) (matchAt [One isNewline] (drop k s)))
       (rev [1 ..< Suc (wsRun s)])"
  by (simp only: matchAt.simps wsRun_def)

lemma nl_at_None:
  "i < length s \<Longrightarrow>
   map_option (\<lambda>m. i + m) (matchAt [One isNewline] (drop i s)) = None \<Longrightarrow> s ! i \<noteq> CHR 0x0A"
proof -
  assume il: "i < length s" and n: "map_option (\<lambda>m. i + m) (matchAt [One isNewline] (drop i s)) = None"
  have d: "drop i s = s ! i # drop (Suc i) s" using il by (simp add: Cons_nth_drop_Suc)
  show ?thesis using n unfolding d matchAt_nl by (auto simp: isNewline_def)
qed

lemma wsRun_le: "wsRun s \<le> length s"
  unfolding wsRun_def by (rule length_takeWhile_le)

lemma match1_None:
  assumes "matchAt [Many 1 isSpace, One isNewline] s = None" and "1 \<le> i" and "i < wsRun s"
  shows "s ! i \<noteq> CHR 0x0A"
proof -
  have il: "i < length s" using assms(3) wsRun_le[of s] by simp
  have mem: "i \<in> set (rev [1 ..< Suc (wsRun s)])"
    using assms(2,3) by (simp del: upt_Suc)
  have "map_option (\<lambda>m. i + m) (matchAt [One isNewline] (drop i s)) = None"
    using first_some_NoneD[OF assms(1)[unfolded match1_unfold] mem] .
  then show ?thesis using il by (rule nl_at_None[rotated])
qed

lemma rev_upt_split:
  assumes "rev [a ..< b] = pre @ k # post" and "k < i" and "i < b"
  shows "i \<in> set pre"
proof -
  have "sorted_wrt (\<lambda>x y. y < x) (rev [a ..< b])"
    unfolding sorted_wrt_rev by (rule sorted_wrt_upt)
  then have post: "\<forall>z \<in> set post. z < k"
    unfolding assms(1) by (simp add: sorted_wrt_append)
  have "k \<in> set (rev [a ..< b])" unfolding assms(1) by simp
  then have "a \<le> k" by simp
  then have "i \<in> set (rev [a ..< b])" using assms(2,3) by simp
  then have "i \<in> set pre \<or> i = k \<or> i \<in> set post" unfolding assms(1) by auto
  then show ?thesis using post assms(2) by auto
qed

lemma match1_Some:
  assumes "matchAt [Many 1 isSpace, One isNewline] s = Some j"
  shows "2 \<le> j \<and> j \<le> wsRun s \<and> s ! (j - 1) = CHR 0x0A
         \<and> (\<forall>i. j \<le> i \<and> i < wsRun s \<longrightarrow> s ! i \<noteq> CHR 0x0A)"
proof -
  let ?f = "\<lambda>k. map_option (\<lambda>m. k + m) (matchAt [One isNewline] (drop k s))"
  have fs: "first_some ?f (rev [1 ..< Suc (wsRun s)]) = Some j"
    using assms unfolding match1_unfold .
  from first_some_first[OF fs] obtain pre k post
    where sp: "rev [1 ..< Suc (wsRun s)] = pre @ k # post" and fk: "?f k = Some j"
      and none: "\<forall>z \<in> set pre. ?f z = None" by blast
  have "k \<in> set (rev [1 ..< Suc (wsRun s)])" unfolding sp by simp
  then have k1: "1 \<le> k" "k \<le> wsRun s" by (simp_all del: upt_Suc)
  from fk obtain c rest where dk: "drop k s = c # rest" "isNewline c" "j = k + 1"
    unfolding matchAt_nl by (auto split: list.splits if_splits)
  have klt: "k < length s"
  proof (rule ccontr)
    assume "\<not> k < length s"
    then have "drop k s = []" by simp
    with dk(1) show False by simp
  qed
  have "s ! k = c" using dk(1) klt by (metis nth_via_drop)
  then have sk: "s ! k = CHR 0x0A" using dk(2) by (simp add: isNewline_def)
  have kw: "k < wsRun s"
  proof (rule ccontr)
    assume "\<not> k < wsRun s"
    then have ke: "k = length (takeWhile isSpace s)" using k1 by (simp add: wsRun_def)
    have "\<not> isSpace (s ! k)" using klt unfolding ke by (rule nth_length_takeWhile)
    then show False using sk by (simp add: isSpace_def)
  qed
  have later: "\<forall>i. j \<le> i \<and> i < wsRun s \<longrightarrow> s ! i \<noteq> CHR 0x0A"
  proof (intro allI impI)
    fix i assume i: "j \<le> i \<and> i < wsRun s"
    then have "k < i" "i < Suc (wsRun s)" using dk(3) by simp_all
    from rev_upt_split[OF sp this] have "i \<in> set pre" .
    then have fi: "?f i = None" using none by blast
    have il: "i < length s" using i wsRun_le[of s] by simp
    show "s ! i \<noteq> CHR 0x0A" using il fi by (rule nl_at_None)
  qed
  show ?thesis using k1 dk(3) kw later sk by simp
qed

lemma noSpaceBeforeNewline_Cons:
  "noSpaceBeforeNewline (x # ys) \<longleftrightarrow>
     noSpaceBeforeNewline ys \<and> (\<forall>r. ys = CHR 0x0A # r \<longrightarrow> \<not> isSpace x)"
  by (cases ys) auto

lemma wsRun_Cons: "wsRun (x # xs) = (if isSpace x then Suc (wsRun xs) else 0)"
  by (simp add: wsRun_def)

lemma takeWhile_drop:
  "j \<le> length (takeWhile P s) \<Longrightarrow> takeWhile P (drop j s) = drop j (takeWhile P s)"
proof (induction s arbitrary: j)
  case Nil
  then show ?case by simp
next
  case (Cons x xs)
  then show ?case by (cases j) (auto split: if_splits)
qed

lemma wsRun_drop: "j \<le> wsRun s \<Longrightarrow> wsRun (drop j s) = wsRun s - j"
  by (simp add: wsRun_def takeWhile_drop)

lemma match1_Nil: "matchAt [Many 1 isSpace, One isNewline] [] = None"
proof (cases "matchAt [Many 1 isSpace, One isNewline] []")
  case None
  then show ?thesis .
next
  case (Some j)
  from match1_Some[OF Some] show ?thesis by (simp add: wsRun_def)
qed

lemma beforeNewline_head:
  assumes "beforeNewline s = CHR 0x0A # rest"
  shows "\<exists>i < wsRun s. s ! i = CHR 0x0A"
proof (cases s)
  case Nil
  then show ?thesis using assms by (simp add: beforeNewline_def replaceAll_Nil match1_Nil)
next
  case (Cons x xs)
  show ?thesis
  proof (cases "matchAt [Many 1 isSpace, One isNewline] s")
    case None
    then have "beforeNewline s = x # beforeNewline xs" unfolding beforeNewline_def Cons by (rule replaceAll_skip)
    then have "x = CHR 0x0A" using assms by simp
    then have "0 < wsRun s \<and> s ! 0 = CHR 0x0A" by (simp add: Cons wsRun_Cons isSpace_def)
    then show ?thesis by blast
  next
    case (Some j)
    from match1_Some[OF Some] have "j - 1 < wsRun s \<and> s ! (j - 1) = CHR 0x0A" by auto
    then show ?thesis by blast
  qed
qed

lemma beforeNewline_ok: "noSpaceBeforeNewline (beforeNewline s)"
proof (induction s rule: length_induct)
  case (1 s)
  show ?case
  proof (cases s)
    case Nil
    then show ?thesis by (simp add: beforeNewline_def replaceAll_Nil match1_Nil)
  next
    case (Cons x xs)
    show ?thesis
    proof (cases "matchAt [Many 1 isSpace, One isNewline] s")
      case None
      have eq: "beforeNewline s = x # beforeNewline xs" using None unfolding beforeNewline_def Cons by (rule replaceAll_skip)
      have ih: "noSpaceBeforeNewline (beforeNewline xs)" using 1 Cons by simp
      have "\<forall>r. beforeNewline xs = CHR 0x0A # r \<longrightarrow> \<not> isSpace x"
      proof (intro allI impI notI)
        fix r assume r: "beforeNewline xs = CHR 0x0A # r" and sp: "isSpace x"
        from beforeNewline_head[OF r] obtain i where i: "i < wsRun xs" "xs ! i = CHR 0x0A" by blast
        have "1 \<le> Suc i" "Suc i < wsRun s" using i sp by (simp_all add: Cons wsRun_Cons)
        from match1_None[OF None this] show False using i(2) by (simp add: Cons)
      qed
      then show ?thesis unfolding eq noSpaceBeforeNewline_Cons using ih by simp
    next
      case (Some j)
      from match1_Some[OF Some] have j: "2 \<le> j" "j \<le> wsRun s"
          "\<forall>i. j \<le> i \<and> i < wsRun s \<longrightarrow> s ! i \<noteq> CHR 0x0A" by auto
      have eq: "beforeNewline s = CHR 0x0A # beforeNewline (drop j s)"
        using replaceAll_match[OF Some, of "[CHR 0x0A]"] j(1) by (simp add: beforeNewline_def)
      have jl: "j \<le> length s" using j(2) wsRun_le[of s] by simp
      have ih: "noSpaceBeforeNewline (beforeNewline (drop j s))" using 1 Cons j(1) by simp
      have "\<forall>r. beforeNewline (drop j s) \<noteq> CHR 0x0A # r"
      proof (intro allI notI)
        fix r assume r: "beforeNewline (drop j s) = CHR 0x0A # r"
        from beforeNewline_head[OF r] obtain i where i: "i < wsRun (drop j s)" "drop j s ! i = CHR 0x0A" by blast
        have "j + i < wsRun s" using i(1) wsRun_drop[OF j(2)] by simp
        moreover have "s ! (j + i) = CHR 0x0A" using i(2) jl by simp
        ultimately show False using j(3) by auto
      qed
      then show ?thesis unfolding eq noSpaceBeforeNewline_Cons using ih by simp
    qed
  qed
qed

lemma newlinesIsolated_Cons:
  "newlinesIsolated (x # ys) \<longleftrightarrow>
     newlinesIsolated ys \<and>
     (\<forall>y r. ys = y # r \<longrightarrow> \<not> (x = CHR 0x0A \<and> isSpace y) \<and> \<not> (isSpace x \<and> y = CHR 0x0A))"
  by (cases ys) auto

lemma noBlankLine_Cons:
  "noBlankLine (x # ys) \<longleftrightarrow> noBlankLine ys \<and> (\<forall>r. ys = CHR 0x0A # r \<longrightarrow> x \<noteq> CHR 0x0A)"
  by (cases ys) auto

lemma noSpaceBeforeNewline_drop: "noSpaceBeforeNewline s \<Longrightarrow> noSpaceBeforeNewline (drop j s)"
proof (induction s arbitrary: j)
  case Nil
  then show ?case by simp
next
  case (Cons x xs)
  then have "noSpaceBeforeNewline xs" by (simp add: noSpaceBeforeNewline_Cons)
  with Cons show ?case by (cases j) auto
qed

lemma newlinesIsolated_drop: "newlinesIsolated s \<Longrightarrow> newlinesIsolated (drop j s)"
proof (induction s arbitrary: j)
  case Nil
  then show ?case by simp
next
  case (Cons x xs)
  then have "newlinesIsolated xs" by (simp add: newlinesIsolated_Cons)
  with Cons show ?case by (cases j) auto
qed

lemma match2:
  "matchAt [One isNewline, Many 1 isSpace] s =
     (case s of [] \<Rightarrow> None
      | x # xs \<Rightarrow> if x = CHR 0x0A \<and> 1 \<le> wsRun xs then Some (Suc (wsRun xs)) else None)"
  by (cases s) (simp_all add: matchAt_Many_last wsRun_def isNewline_def del: matchAt.simps(3))

lemma afterNewline_Nil: "afterNewline [] = []"
  unfolding afterNewline_def by (rule replaceAll_Nil) (subst match2, simp)

lemma afterNewline_skip:
  "\<not> (x = CHR 0x0A \<and> 1 \<le> wsRun xs) \<Longrightarrow> afterNewline (x # xs) = x # afterNewline xs"
  unfolding afterNewline_def by (rule replaceAll_skip) (subst match2, simp)

lemma afterNewline_match:
  "1 \<le> wsRun xs \<Longrightarrow> afterNewline (CHR 0x0A # xs) = CHR 0x0A # afterNewline (drop (wsRun xs) xs)"
proof -
  assume w: "1 \<le> wsRun xs"
  have m: "matchAt [One isNewline, Many 1 isSpace] (CHR 0x0A # xs) = Some (Suc (wsRun xs))"
    using w by (subst match2) simp
  show ?thesis unfolding afterNewline_def using replaceAll_match[OF m, of "[CHR 0x0A]"] by simp
qed

lemma afterNewline_head: "afterNewline s = y # r \<Longrightarrow> \<exists>xs. s = y # xs"
proof (cases s)
  case Nil
  assume "afterNewline s = y # r"
  then show ?thesis using Nil by (simp add: afterNewline_Nil)
next
  case (Cons x xs)
  assume a: "afterNewline s = y # r"
  show ?thesis
  proof (cases "x = CHR 0x0A \<and> 1 \<le> wsRun xs")
    case True
    then show ?thesis using a Cons afterNewline_match[of xs] by simp
  next
    case False
    then show ?thesis using a Cons afterNewline_skip[of x xs] by simp
  qed
qed

lemma drop_wsRun_head: "drop (wsRun xs) xs = y # r \<Longrightarrow> \<not> isSpace y"
proof -
  assume a: "drop (wsRun xs) xs = y # r"
  have "dropWhile isSpace xs = y # r" using a by (simp add: dropWhile_eq_drop wsRun_def)
  then show ?thesis using hd_dropWhile[of isSpace xs] by auto
qed

lemma afterNewline_ok: "noSpaceBeforeNewline s \<Longrightarrow> newlinesIsolated (afterNewline s)"
proof (induction s rule: length_induct)
  case (1 s)
  show ?case
  proof (cases s)
    case Nil
    then show ?thesis by (simp add: afterNewline_Nil)
  next
    case (Cons x xs)
    have okxs: "noSpaceBeforeNewline xs"
      using "1.prems" by (simp add: Cons noSpaceBeforeNewline_Cons)
    show ?thesis
    proof (cases "x = CHR 0x0A \<and> 1 \<le> wsRun xs")
      case True
      have eq: "afterNewline s = CHR 0x0A # afterNewline (drop (wsRun xs) xs)"
        using True afterNewline_match[of xs] by (simp add: Cons)
      have ih: "newlinesIsolated (afterNewline (drop (wsRun xs) xs))"
        using 1 Cons noSpaceBeforeNewline_drop[OF okxs] by simp
      have "\<forall>y r. afterNewline (drop (wsRun xs) xs) = y # r \<longrightarrow> \<not> isSpace y"
        using afterNewline_head drop_wsRun_head by blast
      then have "\<forall>y r. afterNewline (drop (wsRun xs) xs) = y # r \<longrightarrow>
          \<not> (CHR 0x0A = CHR 0x0A \<and> isSpace y) \<and> \<not> (isSpace (CHR 0x0A) \<and> y = CHR 0x0A)"
        by (auto simp: isSpace_def)
      then show ?thesis unfolding eq newlinesIsolated_Cons using ih by blast
    next
      case False
      have eq: "afterNewline s = x # afterNewline xs" using False afterNewline_skip[of x xs] by (simp add: Cons)
      have ih: "newlinesIsolated (afterNewline xs)" using 1 Cons okxs by simp
      have "\<forall>y r. afterNewline xs = y # r \<longrightarrow> \<not> (x = CHR 0x0A \<and> isSpace y) \<and> \<not> (isSpace x \<and> y = CHR 0x0A)"
      proof (intro allI impI)
        fix y r assume "afterNewline xs = y # r"
        then obtain xs' where xs: "xs = y # xs'" using afterNewline_head by blast
        have a: "\<not> (isSpace x \<and> y = CHR 0x0A)" using "1.prems" by (simp add: Cons xs)
        have b: "\<not> (x = CHR 0x0A \<and> isSpace y)" using False by (auto simp: xs wsRun_Cons)
        show "\<not> (x = CHR 0x0A \<and> isSpace y) \<and> \<not> (isSpace x \<and> y = CHR 0x0A)" using a b by simp
      qed
      then show ?thesis unfolding eq newlinesIsolated_Cons using ih by blast
    qed
  qed
qed

lemma match3:
  "matchAt [Many 2 isSpace] s = (if 2 \<le> wsRun s then Some (wsRun s) else None)"
  unfolding wsRun_def by (rule matchAt_Many_last)

lemma squeezeSpaces_Nil: "squeezeSpaces [] = []"
  unfolding squeezeSpaces_def by (rule replaceAll_Nil) (subst match3, simp add: wsRun_def)

lemma squeezeSpaces_skip: "\<not> 2 \<le> wsRun (x # xs) \<Longrightarrow> squeezeSpaces (x # xs) = x # squeezeSpaces xs"
  unfolding squeezeSpaces_def by (rule replaceAll_skip) (subst match3, simp)

lemma squeezeSpaces_match: "2 \<le> wsRun s \<Longrightarrow> squeezeSpaces s = CHR 0x20 # squeezeSpaces (drop (wsRun s) s)"
proof -
  assume w: "2 \<le> wsRun s"
  have m: "matchAt [Many 2 isSpace] s = Some (wsRun s)" using w by (subst match3) simp
  have "wsRun s \<noteq> 0" using w by simp
  from replaceAll_match[OF m this, of "[CHR 0x20]"] show ?thesis unfolding squeezeSpaces_def by simp
qed

lemma squeezeSpaces_head: "squeezeSpaces s = CHR 0x0A # r \<Longrightarrow> \<exists>xs. s = CHR 0x0A # xs"
proof (cases s)
  case Nil
  assume "squeezeSpaces s = CHR 0x0A # r"
  then show ?thesis using Nil by (simp add: squeezeSpaces_Nil)
next
  case (Cons x xs)
  assume a: "squeezeSpaces s = CHR 0x0A # r"
  show ?thesis
  proof (cases "2 \<le> wsRun s")
    case True
    then show ?thesis using a squeezeSpaces_match[of s] by simp
  next
    case False
    then show ?thesis using a Cons squeezeSpaces_skip[of x xs] by simp
  qed
qed

lemma squeezeSpaces_ok: "newlinesIsolated s \<Longrightarrow> noBlankLine (squeezeSpaces s)"
proof (induction s rule: length_induct)
  case (1 s)
  show ?case
  proof (cases s)
    case Nil
    then show ?thesis by (simp add: squeezeSpaces_Nil)
  next
    case (Cons x xs)
    show ?thesis
    proof (cases "2 \<le> wsRun s")
      case True
      have eq: "squeezeSpaces s = CHR 0x20 # squeezeSpaces (drop (wsRun s) s)" using True by (rule squeezeSpaces_match)
      have "length (drop (wsRun s) s) < length s" using True Cons by simp
      then have ih: "noBlankLine (squeezeSpaces (drop (wsRun s) s))"
        using 1 newlinesIsolated_drop by blast
      show ?thesis unfolding eq noBlankLine_Cons using ih by simp
    next
      case False
      have eq: "squeezeSpaces s = x # squeezeSpaces xs" using False squeezeSpaces_skip[of x xs] by (simp add: Cons)
      have okxs: "newlinesIsolated xs" using "1.prems" by (simp add: Cons newlinesIsolated_Cons)
      have ih: "noBlankLine (squeezeSpaces xs)" using 1 Cons okxs by simp
      have "\<forall>r. squeezeSpaces xs = CHR 0x0A # r \<longrightarrow> x \<noteq> CHR 0x0A"
      proof (intro allI impI notI)
        fix r assume "squeezeSpaces xs = CHR 0x0A # r" and x: "x = CHR 0x0A"
        then obtain xs' where "xs = CHR 0x0A # xs'" using squeezeSpaces_head by blast
        then show False using "1.prems" x by (simp add: Cons isSpace_def)
      qed
      then show ?thesis unfolding eq noBlankLine_Cons using ih by simp
    qed
  qed
qed

lemma newlineRuns_id: "noBlankLine s \<Longrightarrow> replaceAll [Many 3 isNewline] rep s = s"
proof (induction s)
  case Nil
  show ?case by (rule replaceAll_Nil) (subst matchAt_Many_last, simp)
next
  case (Cons x xs)
  have okxs: "noBlankLine xs" using Cons.prems by (simp add: noBlankLine_Cons)
  have "length (takeWhile isNewline (x # xs)) \<le> 1"
  proof (cases xs)
    case Nil
    then show ?thesis by simp
  next
    case (Cons y ys)
    then show ?thesis using Cons.prems by (auto simp: isNewline_def)
  qed
  then have "matchAt [Many 3 isNewline] (x # xs) = None"
    by (subst matchAt_Many_last) simp
  from replaceAll_skip[OF this] show ?case using Cons.IH[OF okxs] by simp
qed

lemma noBlankLine_append:
  "noBlankLine s \<longleftrightarrow> \<not> (\<exists>a b. s = a @ CHR 0x0A # CHR 0x0A # b)"
proof (induction s rule: noBlankLine.induct)
  case (1 x y r)
  show ?case
  proof
    assume ok: "noBlankLine (x # y # r)"
    then have tl: "\<not> (\<exists>a b. y # r = a @ CHR 0x0A # CHR 0x0A # b)" using 1 by simp
    show "\<not> (\<exists>a b. x # y # r = a @ CHR 0x0A # CHR 0x0A # b)"
    proof
      assume "\<exists>a b. x # y # r = a @ CHR 0x0A # CHR 0x0A # b"
      then obtain a b where ab: "x # y # r = a @ CHR 0x0A # CHR 0x0A # b" by blast
      show False
      proof (cases a)
        case Nil
        then show ?thesis using ab ok by simp
      next
        case (Cons a0 a')
        then have "y # r = a' @ CHR 0x0A # CHR 0x0A # b" using ab by simp
        then show ?thesis using tl by blast
      qed
    qed
  next
    assume no: "\<not> (\<exists>a b. x # y # r = a @ CHR 0x0A # CHR 0x0A # b)"
    have "\<not> (x = CHR 0x0A \<and> y = CHR 0x0A)"
    proof
      assume "x = CHR 0x0A \<and> y = CHR 0x0A"
      then have "x # y # r = [] @ CHR 0x0A # CHR 0x0A # r" by simp
      then show False using no by blast
    qed
    moreover have "\<not> (\<exists>a b. y # r = a @ CHR 0x0A # CHR 0x0A # b)"
    proof
      assume "\<exists>a b. y # r = a @ CHR 0x0A # CHR 0x0A # b"
      then obtain a b where "y # r = a @ CHR 0x0A # CHR 0x0A # b" by blast
      then have "x # y # r = (x # a) @ CHR 0x0A # CHR 0x0A # b" by simp
      then show False using no by blast
    qed
    ultimately show "noBlankLine (x # y # r)" using 1 by simp
  qed
qed (auto simp: Cons_eq_append_conv)

lemma noBlankLine_rev: "noBlankLine s \<Longrightarrow> noBlankLine (rev s)"
proof -
  assume ok: "noBlankLine s"
  show ?thesis
    unfolding noBlankLine_append
  proof
    assume "\<exists>a b. rev s = a @ CHR 0x0A # CHR 0x0A # b"
    then obtain a b where "rev s = a @ CHR 0x0A # CHR 0x0A # b" by blast
    then have "rev (rev s) = rev (a @ CHR 0x0A # CHR 0x0A # b)" by simp
    then have "s = rev b @ CHR 0x0A # CHR 0x0A # rev a" by simp
    then show False using ok unfolding noBlankLine_append by blast
  qed
qed

lemma noBlankLine_dropWhile: "noBlankLine s \<Longrightarrow> noBlankLine (dropWhile P s)"
proof (induction s)
  case Nil
  then show ?case by simp
next
  case (Cons x xs)
  then have "noBlankLine xs" by (simp add: noBlankLine_Cons)
  with Cons show ?case by simp
qed

lemma noBlankLine_trim: "noBlankLine s \<Longrightarrow> noBlankLine (trim s)"
  unfolding trim_def
  by (intro noBlankLine_rev noBlankLine_dropWhile)

text \<open>So the result of \<^verbatim>\<open>cleanText\<close> has no blank line, whatever the input: the fourth
  replacement, of three or more newlines by two, never finds a match.\<close>

lemma cleanText_stages:
  "cleanText t = trim (replaceAll [Many 3 isNewline] [CHR 0x0A, CHR 0x0A] (squeezeSpaces (afterNewline (beforeNewline t))))"
  unfolding cleanText_def beforeNewline_def afterNewline_def squeezeSpaces_def ..

lemma cleanText_noBlankLine: "noBlankLine (cleanText t)"
proof -
  have "noBlankLine (squeezeSpaces (afterNewline (beforeNewline t)))" by (intro squeezeSpaces_ok afterNewline_ok beforeNewline_ok)
  then show ?thesis unfolding cleanText_stages by (simp add: newlineRuns_id noBlankLine_trim)
qed

text \<open>
  Claim C4. The claim asks that a run of three or more blank lines leaves one blank line,
  two consecutive newlines, in the result. The first replacement of \<^verbatim>\<open>cleanText\<close>
  already turns every run of white space that ends in a newline into a single newline, so
  the later replacement of \<^verbatim>\<open>\n{3,}\<close> by two newlines finds nothing
  (\<open>cleanText_noBlankLine\<close>): four newlines between two letters come out as one newline.
\<close>

theorem C4_cleanText_loses_blank_line:
  "cleanText ''a\<newline>\<newline>\<newline>\<newline>b'' = ''a\<newline>b''"
  by code_simp

lemma take5: "take 5 s = ''page='' \<longleftrightarrow> (\<exists>rest. s = ''page='' @ rest)"
proof
  assume "take 5 s = ''page=''"
  then have "s = ''page='' @ drop 5 s" by (metis append_take_drop_id)
  then show "\<exists>rest. s = ''page='' @ rest" ..
next
  assume "\<exists>rest. s = ''page='' @ rest"
  then show "take 5 s = ''page=''" by auto
qed

lemma matchAt_pageRe:
  "matchAt pageRe s =
     (if take 5 s = ''page='' \<and> takeWhile isDigit (drop 5 s) \<noteq> []
      then Some (5 + length (takeWhile isDigit (drop 5 s))) else None)"
proof (cases "take 5 s = ''page=''")
  case True
  then obtain rest where s: "s = ''page='' @ rest" using take5 by blast
  show ?thesis
    unfolding s pageRe_def lit_def
    by (simp add: matchAt_Many_last Suc_le_eq del: matchAt.simps(3))
next
  case False
  have "matchAt pageRe s = None"
  proof (rule ccontr)
    assume "matchAt pageRe s \<noteq> None"
    then have "take 5 s = ''page=''"
      unfolding pageRe_def lit_def
      by (auto simp del: matchAt.simps(3) split: list.splits if_splits)
    with False show False by simp
  qed
  with False show ?thesis by simp
qed


lemma scan_Nil_pageRe: "scan pageRe [] = []"
  by (subst scan.simps) (simp add: matchAt_pageRe)

lemma pageTokens_Nil: "pageTokens [] = []"
  by (simp add: pageTokens_def matchAll_def scan_Nil_pageRe)

lemma pageTokens_no_match:
  "matchAt pageRe (x # xs) = None \<Longrightarrow> pageTokens (x # xs) = pageTokens xs"
  by (simp add: pageTokens_def matchAll_def scan.simps[of pageRe "x # xs"])

lemma pageTokens_match:
  assumes "matchAt pageRe s = Some k"
  shows "pageTokens s = Number_digits (drop 5 (take k s)) # pageTokens (drop k s)"
proof -
  have "k \<noteq> 0" using assms by (auto simp: matchAt_pageRe split: if_splits)
  then show ?thesis using assms
    by (simp add: pageTokens_def matchAll_def scan.simps[of pageRe s])
qed

lemma isDigit_not_p: "isDigit c \<Longrightarrow> c \<noteq> CHR ''p''"
  by (auto simp: isDigit_def)

lemma pageNumbers_skip: "x \<noteq> CHR ''p'' \<Longrightarrow> pageNumbers (x # xs) = pageNumbers xs"
  by (auto simp: tokenAt_def)

lemma pageNumbers_skip_all:
  "\<forall>c \<in> set pre. c \<noteq> CHR ''p'' \<Longrightarrow> pageNumbers (pre @ rest) = pageNumbers rest"
  by (induction pre) (auto simp: pageNumbers_skip simp del: pageNumbers.simps)

lemma pageNumbers_match:
  assumes "take 5 s = ''page=''" and "takeWhile isDigit (drop 5 s) \<noteq> []"
  shows "pageNumbers s = Number_digits (takeWhile isDigit (drop 5 s))
           # pageNumbers (drop (5 + length (takeWhile isDigit (drop 5 s))) s)"
proof -
  obtain rest where s: "s = ''page='' @ rest" using assms(1) take5 by blast
  define ds where "ds = takeWhile isDigit rest"
  have rest: "rest = ds @ dropWhile isDigit rest" by (simp add: ds_def)
  have t: "tokenAt s = Some (Number_digits ds)"
    using assms by (simp add: tokenAt_def s ds_def)
  have nop: "\<forall>c \<in> set (''age='' @ ds). c \<noteq> CHR ''p''"
    using isDigit_not_p by (auto simp: ds_def dest: set_takeWhileD)
  have "pageNumbers s = Number_digits ds # pageNumbers ((''age='' @ ds) @ dropWhile isDigit rest)"
    using t rest by (simp add: s)
  also have "pageNumbers ((''age='' @ ds) @ dropWhile isDigit rest) = pageNumbers (dropWhile isDigit rest)"
    using nop by (rule pageNumbers_skip_all)
  also have "dropWhile isDigit rest = drop (5 + length (takeWhile isDigit (drop 5 s))) s"
  proof -
    have d5: "drop 5 s = rest" by (simp add: s)
    have "drop (5 + length (takeWhile isDigit rest)) s = drop (length (takeWhile isDigit rest)) (drop 5 s)"
      by (simp add: add.commute)
    then show ?thesis by (simp add: d5 dropWhile_eq_drop)
  qed
  finally show ?thesis using assms(1) by (simp add: ds_def s)
qed

lemma pageTokens_pageNumbers: "pageTokens html = pageNumbers html"
proof (induction html rule: length_induct)
  case (1 s)
  show ?case
  proof (cases s)
    case Nil
    then show ?thesis by (simp add: pageTokens_Nil)
  next
    case (Cons x xs)
    show ?thesis
    proof (cases "take 5 s = ''page='' \<and> takeWhile isDigit (drop 5 s) \<noteq> []")
      case True
      define k where "k = 5 + length (takeWhile isDigit (drop 5 s))"
      have m: "matchAt pageRe s = Some k" using True by (simp add: matchAt_pageRe k_def)
      have "k \<le> length s" using m by (rule matchAt_le)
      then have shorter: "length (drop k s) < length s" using Cons by (simp add: k_def)
      have "drop 5 (take k s) = take (length (takeWhile isDigit (drop 5 s))) (drop 5 s)"
        by (simp add: k_def drop_take)
      also have "\<dots> = takeWhile isDigit (drop 5 s)"
        by (rule takeWhile_eq_take[symmetric])
      finally have tk: "drop 5 (take k s) = takeWhile isDigit (drop 5 s)" .
      have "pageTokens s = Number_digits (takeWhile isDigit (drop 5 s)) # pageTokens (drop k s)"
        using pageTokens_match[OF m] tk by simp
      also have "pageTokens (drop k s) = pageNumbers (drop k s)"
        using 1 shorter by blast
      finally show ?thesis using pageNumbers_match True by (simp add: k_def)
    next
      case False
      then have m: "matchAt pageRe (x # xs) = None" using Cons by (simp add: matchAt_pageRe)
      have t: "tokenAt (x # xs) = None" using False Cons by (simp add: tokenAt_def)
      have "pageTokens xs = pageNumbers xs" using 1 Cons by simp
      then show ?thesis using pageTokens_no_match[OF m] t Cons by simp
    qed
  qed
qed

lemma Math_max_Max: "Math_max p ps = Max (set (p # ps))"
proof -
  have "foldl max p ps = fold max ps p" by (simp add: foldl_conv_fold max.commute)
  also have "\<dots> = Max (set (p # ps))" by (rule Max.set_eq_fold[symmetric])
  finally show ?thesis by (simp add: Math_max_def)
qed

text \<open>What \<^verbatim>\<open>Number\<close> reads: the number written when that is below \<open>2^53\<close>; above, a
  neighbouring double, as for \<open>2^53 + 1\<close>, which has none of its own.\<close>

lemma toDouble_exact: "0 \<le> n \<Longrightarrow> n < 9007199254740992 \<Longrightarrow> toDouble n = enat (nat n)"
  by (simp add: toDouble_def)

lemma toDouble_rounds: "toDouble 9007199254740993 = 9007199254740992"
  by (simp add: toDouble_def exponentOf.simps numeral_eq_enat)

lemma parseMaxPage_cases:
  "parseMaxPage limit html =
     (if pageNumbers html = [] then Inr 1
      else if limit < int (length (pageNumbers html)) then Inl RangeError
      else Inr (Max (set (pageNumbers html))))"
  by (cases "pageNumbers html")
     (simp_all add: parseMaxPage_def pageTokens_pageNumbers Math_max_Max del: Max.set_eq_fold)

lemma Max_zero_enat:
  fixes xs :: "enat list"
  assumes "xs \<noteq> []"
  shows "Max (set xs) = 0 \<longleftrightarrow> (\<forall>t \<in> set xs. t = 0)"
proof
  assume z: "Max (set xs) = 0"
  show "\<forall>t \<in> set xs. t = 0"
  proof
    fix t assume "t \<in> set xs"
    then have "t \<le> Max (set xs)" by simp
    with z show "t = 0" by simp
  qed
next
  assume a: "\<forall>t \<in> set xs. t = 0"
  have "Max (set xs) \<in> set xs" using assms by (intro Max_in) auto
  with a show "Max (set xs) = 0" by blast
qed

text \<open>Three tokens where a call takes two arguments: the spread raises.\<close>

lemma parseMaxPage_too_many_tokens: "parseMaxPage 2 ''page=1 page=2 page=3'' = Inl RangeError"
  by code_simp

text \<open>
  Claim C5, amended. \<^verbatim>\<open>parseMaxPage\<close> returns 1 when the text has no page-number
  token. Otherwise it returns the largest of the tokens of all occurrences of \<^verbatim>\<open>page=\<close>
  before a digit, each token being what \<^verbatim>\<open>Number\<close> reads from its digits (the number
  written below \<open>2^53\<close>, a rounded one above, \<^verbatim>\<open>Infinity\<close> beyond the doubles), as long as
  the tokens are no more than a call takes arguments; when they are more, it raises a
  \<^verbatim>\<open>RangeError\<close>. It returns 0 exactly when there are tokens, not too many, and all of
  them are 0: the result is not kept away from 0.
\<close>

theorem C5_parseMaxPage_largest_token:
  "(pageNumbers html = [] \<longrightarrow> parseMaxPage limit html = Inr 1)
   \<and> (pageNumbers html \<noteq> [] \<and> int (length (pageNumbers html)) \<le> limit \<longrightarrow>
        parseMaxPage limit html = Inr (Max (set (pageNumbers html))))
   \<and> (pageNumbers html \<noteq> [] \<and> limit < int (length (pageNumbers html)) \<longrightarrow>
        parseMaxPage limit html = Inl RangeError)
   \<and> (parseMaxPage limit html = Inr 0 \<longleftrightarrow>
        pageNumbers html \<noteq> [] \<and> int (length (pageNumbers html)) \<le> limit
        \<and> (\<forall>t \<in> set (pageNumbers html). t = 0))"
proof (cases "pageNumbers html = []")
  case True
  then show ?thesis by (simp add: parseMaxPage_cases)
next
  case ne: False
  show ?thesis
  proof (cases "limit < int (length (pageNumbers html))")
    case True
    then show ?thesis using ne by (simp add: parseMaxPage_cases)
  next
    case False
    then have r: "parseMaxPage limit html = Inr (Max (set (pageNumbers html)))"
      using ne by (simp add: parseMaxPage_cases)
    have le: "int (length (pageNumbers html)) \<le> limit" using False by simp
    show ?thesis
      unfolding r using ne le Max_zero_enat[OF ne] by simp
  qed
qed

theorem C5_parseMaxPage_largest_token_witness:
  "pageNumbers ''<a href=?page=2>2</a> <a href=?page=10>10</a>'' \<noteq> []
   \<and> int (length (pageNumbers ''<a href=?page=2>2</a> <a href=?page=10>10</a>'')) \<le> 100000
   \<and> parseMaxPage 100000 ''<a href=?page=2>2</a> <a href=?page=10>10</a>''
       = Inr (Max (set (pageNumbers ''<a href=?page=2>2</a> <a href=?page=10>10</a>'')))"
proof -
  have ne: "pageNumbers ''<a href=?page=2>2</a> <a href=?page=10>10</a>'' \<noteq> []"
    by code_simp
  have le: "int (length (pageNumbers ''<a href=?page=2>2</a> <a href=?page=10>10</a>'')) \<le> 100000"
    by code_simp
  show ?thesis
    using C5_parseMaxPage_largest_token[of "''<a href=?page=2>2</a> <a href=?page=10>10</a>''" 100000]
      ne le
    by blast
qed

text \<open>Claim C5 as stated fails where the only token is \<^verbatim>\<open>page=0\<close>: the result is 0.\<close>

theorem C5_parseMaxPage_zero: "parseMaxPage 100000 ''page=0'' = Inr 0"
  by code_simp

section \<open>Properties of the assessment extractor\<close>

text \<open>\<open>firstMatch\<close> finds the element that \<^verbatim>\<open>$(selector).filter(...).first()\<close> selects:
  the first member of the selection in document order.\<close>

lemma firstMatch_findAll:
  "map_option fst (firstMatch P doc) = (case findAll P doc of [] \<Rightarrow> None | x # _ \<Rightarrow> Some x)"
proof (induction P doc rule: firstMatch.induct)
  case (1 P)
  then show ?case by simp
next
  case (2 P tag attrs cs rest)
  show ?case
  proof (cases "P (Element tag attrs cs)")
    case True
    then show ?thesis by simp
  next
    case False
    note IH1 = "2.IH"(1)[OF False] and IH2 = "2.IH"(2)[OF False]
    show ?thesis
    proof (cases "firstMatch P cs")
      case None
      then have "findAll P cs = []" using IH1 by (simp split: list.splits)
      then show ?thesis using False None IH2 by simp
    next
      case (Some found)
      then obtain x xs where "findAll P cs = x # xs" "fst found = x"
        using IH1 by (auto split: list.splits)
      then show ?thesis using False Some by simp
    qed
  qed
qed simp_all


lemma set_add_foldl_distinct:
  "distinct acc \<Longrightarrow> distinct (foldl (\<lambda>acc x. set_add x acc) acc xs)"
  by (induction xs arbitrary: acc) (auto simp: set_add_def)

lemma set_add_foldl_append:
  "foldl (\<lambda>acc x. set_add x acc) acc (xs @ ys)
     = foldl (\<lambda>acc x. set_add x acc) (foldl (\<lambda>acc x. set_add x acc) acc xs) ys"
  by simp

lemma set_add_foldl_set:
  "set (foldl (\<lambda>acc x. set_add x acc) acc xs) = set acc \<union> set xs"
  by (induction xs arbitrary: acc) (auto simp: set_add_def)

lemma emailsWalk_takeWhile:
  "emailsWalk siblings emails =
     foldl (\<lambda>acc email. set_add email acc) emails
       (concat (map (\<lambda>n. extractEmails (textOf n))
          (takeWhile (\<lambda>n. \<not> stopsEmails n) (filter isElement siblings))))"
  by (induction siblings arbitrary: emails) auto

lemma emailsWalk_distinct: "distinct emails \<Longrightarrow> distinct (emailsWalk siblings emails)"
  by (simp add: emailsWalk_takeWhile set_add_foldl_distinct)

lemma parseSemesterEmails_distinct: "distinct (parseSemesterEmails doc semesterLabel)"
  by (simp add: parseSemesterEmails_def emailsWalk_distinct split: option.splits prod.splits)

text \<open>
  Claim C6, amended. \<^verbatim>\<open>parseSemesterEmails\<close> collects the email tokens of the sibling
  elements that follow the first \<^verbatim>\<open>h5\<close> heading mentioning the period, up to the first
  sibling that is an \<^verbatim>\<open>h5\<close>, \<^verbatim>\<open>h3\<close> or \<^verbatim>\<open>h2\<close> element or to the end of the
  siblings; nothing behind such a heading is collected. The result is the duplicate-free
  list of these tokens in order of first occurrence, and empty when no heading matches.
\<close>

theorem C6_emails_until_h5_h3_h2:
  "parseSemesterEmails doc semesterLabel =
     (case firstMatch (\<lambda>el. isTag ''h5'' el \<and> mentions semesterLabel el) doc of
        None \<Rightarrow> []
      | Some (semesterHeading, siblings) \<Rightarrow>
          new_Set (concat (map (\<lambda>n. extractEmails (textOf n))
            (takeWhile (\<lambda>n. \<not> (isTag ''h5'' n \<or> isTag ''h3'' n \<or> isTag ''h2'' n))
               (filter isElement siblings)))))"
  by (simp add: parseSemesterEmails_def emailsWalk_takeWhile new_Set_def stopsEmails_def
           split: option.splits prod.splits)

theorem C6_emails_until_h5_h3_h2_witness:
  "parseSemesterEmails exampleAssessmentDoc ''Semester 1''
     = [''Jane.Doe@unimelb.edu.au'', ''jane.doe@unimelb.edu.au'']"
proof -
  have rhs: "(case firstMatch (\<lambda>el. isTag ''h5'' el \<and> mentions ''Semester 1'' el) exampleAssessmentDoc of
        None \<Rightarrow> []
      | Some (semesterHeading, siblings) \<Rightarrow>
          new_Set (concat (map (\<lambda>n. extractEmails (textOf n))
            (takeWhile (\<lambda>n. \<not> (isTag ''h5'' n \<or> isTag ''h3'' n \<or> isTag ''h2'' n))
               (filter isElement siblings)))))
      = [''Jane.Doe@unimelb.edu.au'', ''jane.doe@unimelb.edu.au'']"
    by code_simp
  show ?thesis
    using C6_emails_until_h5_h3_h2[of exampleAssessmentDoc "''Semester 1''", THEN trans, OF rhs] .
qed

text \<open>Claim C6 as stated fails at an \<^verbatim>\<open>h4\<close> heading, which is of a higher level than
  \<^verbatim>\<open>h5\<close> and does not end the walk: the email behind it is collected.\<close>

theorem C6_h4_does_not_stop:
  "parseSemesterEmails
     [Element ''h5'' [] [Text ''Semester 1''],
      Element ''p'' [] [Text ''first@unimelb.edu.au''],
      Element ''h4'' [] [Text ''Semester 2''],
      Element ''p'' [] [Text ''second@unimelb.edu.au'']]
     ''Semester 1''
   = [''first@unimelb.edu.au'', ''second@unimelb.edu.au'']"
  by code_simp

lemma tableRows_nonempty: "rs \<noteq> [] \<Longrightarrow> tableRows headers trs rs \<noteq> []"
  by (induction trs arbitrary: rs) (auto simp: Let_def)

lemma tablesWalk_rows:
  "\<forall>t \<in> set ts. rows t \<noteq> [] \<Longrightarrow> \<forall>t \<in> set (tablesWalk siblings ts). rows t \<noteq> []"
proof (induction siblings arbitrary: ts)
  case Nil
  then show ?case by simp
next
  case (Cons n siblings)
  define rs where "rs = tableRows (tableHeaders n) (findBelow ''tbody'' ''tr'' False (children n)) []"
  have ext: "rs \<noteq> [] \<Longrightarrow>
      \<forall>t \<in> set (ts @ [\<lparr>columns = tableHeaders n, rows = rs\<rparr>]). rows t \<noteq> []"
    using Cons.prems by simp
  show ?case
    using Cons.IH[OF Cons.prems] Cons.IH[OF ext] Cons.prems
    by (simp add: Let_def rs_def)
qed

lemma parseAssessmentTables_rows:
  "t \<in> set (parseAssessmentTables doc semesterLabel) \<Longrightarrow> rows t \<noteq> []"
  using tablesWalk_rows[of "[]"]
  by (auto simp: parseAssessmentTables_def split: option.splits prod.splits)

section \<open>Properties of the deduplication\<close>













text \<open>The list that is deduplicated is the concatenation of the stubs of the search pages
  1, 2, ... in this order, up to the page at which the loop stopped.\<close>

lemma paginate_pages_aux:
  assumes whole: "paginate e pageUrl firstPageHtml page maxPage searchItems = Some y"
  shows "(nextPage page = page \<longrightarrow>
            \<not> inBound page maxPage \<or> pageStubs e pageUrl firstPageHtml page = [])
         \<and> (\<forall>found. y = Inr found \<longrightarrow>
              (\<exists>n. found = searchItems
                 @ concat (map (pageStubs e pageUrl firstPageHtml) [page ..< page + n])))"
proof (induction rule: paginate.raw_induct)
  case (1 pg e pageUrl firstPageHtml page maxPage searchItems y)
  note IH = 1(1) and body = 1(2)
  show ?case
  proof (cases "inBound page maxPage")
    case False
    then have "y = Inr searchItems" using body by simp
    then show ?thesis using False by (auto intro: exI[of _ 0])
  next
    case True
    show ?thesis
    proof (cases "if page = 1 then Inr firstPageHtml else fetchText e (pageUrl page)")
      case (Inl err)
      then have "y = Inl err" using body True by simp
      moreover have "pageStubs e pageUrl firstPageHtml page = []"
        using Inl by (simp add: pageStubs_def)
      ultimately show ?thesis by simp
    next
      case (Inr html)
      define these where "these = parseSearchPage (load e html)"
      have ps: "pageStubs e pageUrl firstPageHtml page = these"
        using Inr by (simp add: pageStubs_def these_def)
      show ?thesis
      proof (cases "these = []")
        case True
        then have "y = Inr searchItems"
          using body \<open>inBound page maxPage\<close> Inr by (simp add: these_def)
        then show ?thesis using True ps by (auto intro: exI[of _ 0])
      next
        case False
        have rec: "pg e pageUrl firstPageHtml (nextPage page) maxPage (searchItems @ these) = Some y"
          using body \<open>inBound page maxPage\<close> Inr False by (simp add: these_def Let_def)
        note IH' = IH[OF rec]
        have moved: "nextPage page = page + 1"
        proof (rule ccontr)
          assume "nextPage page \<noteq> page + 1"
          then have stuck: "nextPage page = page" by (simp add: nextPage_def split: if_splits)
          then have "\<not> inBound page maxPage \<or> pageStubs e pageUrl firstPageHtml page = []"
            using IH' by simp
          then show False using \<open>inBound page maxPage\<close> ps False by simp
        qed
        have B: "\<exists>n. found = searchItems
                 @ concat (map (pageStubs e pageUrl firstPageHtml) [page ..< page + n])"
          if y: "y = Inr found" for found
        proof -
          from IH' y moved obtain n
            where n: "found = (searchItems @ these)
                @ concat (map (pageStubs e pageUrl firstPageHtml) [page + 1 ..< page + 1 + n])"
            by auto
          have up: "[page ..< page + Suc n] = page # [page + 1 ..< page + 1 + n]"
            by (simp add: upt_rec del: upt_Suc)
          have "found = searchItems
              @ concat (map (pageStubs e pageUrl firstPageHtml) [page ..< page + Suc n])"
            unfolding up using n ps by (simp del: upt_Suc)
          then show ?thesis by blast
        qed
        show ?thesis using moved B by simp
      qed
    qed
  qed
qed (rule whole)

lemma paginate_pages:
  assumes "paginate e pageUrl firstPageHtml page maxPage searchItems = Some (Inr found)"
  shows "\<exists>n. found = searchItems @ concat (map (pageStubs e pageUrl firstPageHtml) [page ..< page + n])"
  using paginate_pages_aux[OF assms] by simp

text \<open>With an integer bound below \<open>2\<^sup>5\<^sup>3\<close> the loop returns.\<close>

lemma paginate_returns:
  "maxPage < 9007199254740992 \<Longrightarrow>
   \<exists>r. paginate e pageUrl firstPageHtml page (Upto maxPage) searchItems = Some r"
proof (induction "nat (maxPage + 1 - int page)" arbitrary: page searchItems)
  case 0
  then have "\<not> inBound page (Upto maxPage)" by simp
  then show ?case by (subst paginate.simps) simp
next
  case (Suc k)
  then have b: "inBound page (Upto maxPage)" by simp
  then have nx: "nextPage page = page + 1" using Suc.prems by (simp add: nextPage_def)
  have k: "k = nat (maxPage + 1 - int (page + 1))" using Suc.hyps(2) by simp
  show ?case
  proof (cases "if page = 1 then Inr firstPageHtml else fetchText e (pageUrl page)")
    case (Inl err)
    then show ?thesis using b by (subst paginate.simps) simp
  next
    case (Inr html)
    show ?thesis
    proof (cases "parseSearchPage (load e html) = []")
      case True
      then show ?thesis using b Inr by (subst paginate.simps) simp
    next
      case False
      from Suc.hyps(1)[OF k Suc.prems, of "searchItems @ parseSearchPage (load e html)"]
      obtain r where "paginate e pageUrl firstPageHtml (page + 1) (Upto maxPage)
          (searchItems @ parseSearchPage (load e html)) = Some r" by blast
      then show ?thesis using b Inr False nx by (subst paginate.simps) (simp add: Let_def)
    qed
  qed
qed

lemma candidates_pages:
  assumes "candidates cfg e = Some (Inr itemsList)"
  shows "\<exists>pageUrl firstPageHtml n.
           pageUrls e (searchUrlArg cfg) = Some pageUrl
           \<and> fetchText e (pageUrl 1) = Inr firstPageHtml
           \<and> itemsList = dedup (concat (map (pageStubs e pageUrl firstPageHtml) [1 ..< 1 + n]))"
proof -
  from assms obtain pageUrl where u: "pageUrls e (searchUrlArg cfg) = Some pageUrl"
    by (auto simp: candidates_def split: option.splits)
  from assms u obtain firstPageHtml where f: "fetchText e (pageUrl 1) = Inr firstPageHtml"
    by (auto simp: candidates_def split: sum.splits)
  from assms u f obtain maxPage searchItems
    where p: "paginate e pageUrl firstPageHtml 1 maxPage [] = Some (Inr searchItems)"
      and d: "itemsList = dedup searchItems"
    by (auto simp: candidates_def split: sum.splits option.splits)
  from paginate_pages[OF p] obtain n
    where "searchItems = concat (map (pageStubs e pageUrl firstPageHtml) [1 ..< 1 + n])"
    by auto
  with u f d show ?thesis by blast
qed

text \<open>The first part of a run returns whenever the bound of the loop is an integer below
  \<open>2\<^sup>5\<^sup>3\<close>: when \<^verbatim>\<open>--max-pages\<close> is one, or when it is absent and every token of the
  first page is.\<close>

lemma candidates_returns:
  assumes "(maxPagesArg cfg \<noteq> 0 \<and> maxPagesArg cfg < 9007199254740992)
           \<or> (maxPagesArg cfg = 0
              \<and> (\<forall>html. fetchText e (the (pageUrls e (searchUrlArg cfg)) 1) = Inr html
                    \<longrightarrow> (\<forall>t \<in> set (pageNumbers html). t < enat 9007199254740992)))"
  shows "\<exists>r. candidates cfg e = Some r"
proof (cases "pageUrls e (searchUrlArg cfg)")
  case None
  then show ?thesis by (simp add: candidates_def)
next
  case (Some pageUrl)
  show ?thesis
  proof (cases "fetchText e (pageUrl 1)")
    case (Inl err)
    then show ?thesis using Some by (simp add: candidates_def)
  next
    case (Inr firstPageHtml)
    show ?thesis
    proof (cases "maxPageOf cfg e firstPageHtml")
      case (Inl err)
      then show ?thesis using Some Inr by (simp add: candidates_def)
    next
      case mp: (Inr maxPage)
      have "\<exists>m. maxPage = Upto m \<and> m < 9007199254740992"
      proof (cases "maxPagesArg cfg \<noteq> 0")
        case True
        then show ?thesis using mp assms by (auto simp: maxPageOf_def)
      next
        case False
        then have small: "\<forall>t \<in> set (pageNumbers firstPageHtml). t < enat 9007199254740992"
          using assms Some Inr by simp
        from False mp obtain n where n: "parseMaxPage (argumentLimit e) firstPageHtml = Inr n"
            and b: "maxPage = (case n of enat k \<Rightarrow> Upto (int k) | \<infinity> \<Rightarrow> Unbounded)"
          by (auto simp: maxPageOf_def split: sum.splits)
        have "n < enat 9007199254740992"
        proof (cases "pageNumbers firstPageHtml = []")
          case True
          then show ?thesis using n by (auto simp: parseMaxPage_cases one_enat_def)
        next
          case ne: False
          then have "n = Max (set (pageNumbers firstPageHtml))"
            using n by (auto simp: parseMaxPage_cases split: if_splits)
          moreover have "Max (set (pageNumbers firstPageHtml)) \<in> set (pageNumbers firstPageHtml)"
            using ne by (intro Max_in) auto
          ultimately have "n \<in> set (pageNumbers firstPageHtml)" by simp
          then show ?thesis using small by metis
        qed
        then show ?thesis using b by (cases n) auto
      qed
      then obtain m where m: "maxPage = Upto m" "m < 9007199254740992" by blast
      from paginate_returns[OF m(2), of e pageUrl firstPageHtml 1 "[]"] obtain r
        where "paginate e pageUrl firstPageHtml 1 (Upto m) [] = Some r" by blast
      then show ?thesis using Some Inr mp m
        by (cases r) (simp_all add: candidates_def)
    qed
  qed
qed



section \<open>Properties of the crawl\<close>

lemma worker_outcome:
  "worker cfg e item st =
     (if urlInvalid cfg e item then Inl InvalidUrl
      else Inr (st\<lparr>processed := processed st + 1,
                   skippedCount := skippedCount st + (if semesterRejected cfg e item then 1 else 0),
                   results := results st @ savedRecord cfg e item\<rparr>))"
proof (cases "preFiltered cfg item")
  case True
  then show ?thesis
    by (simp add: worker_def urlInvalid_def semesterRejected_def savedRecord_def preFiltered_def)
next
  case nf: False
  show ?thesis
  proof (cases "subjectUrlOf e item")
    case None
    then show ?thesis using nf
      by (auto simp: worker_def urlInvalid_def preFiltered_def)
  next
    case (Some url)
    show ?thesis
    proof (cases "fetchText e url")
      case (Inl err)
      then show ?thesis using nf Some
        by (auto simp: worker_def urlInvalid_def semesterRejected_def savedRecord_def
              preFiltered_def availabilityFiltered_def)
    next
      case (Inr subjectHtml)
      then show ?thesis using nf Some
        by (auto simp: worker_def urlInvalid_def semesterRejected_def savedRecord_def
              preFiltered_def availabilityFiltered_def recordOf_def Let_def)
    qed
  qed
qed

lemma workers_outcome:
  "workers cfg e xs st =
     (if \<exists>x \<in> set xs. urlInvalid cfg e x then Inl InvalidUrl
      else Inr (st\<lparr>processed := processed st + length xs,
                   skippedCount := skippedCount st + length (filter (semesterRejected cfg e) xs),
                   results := results st @ concat (map (savedRecord cfg e) xs)\<rparr>))"
proof (induction xs arbitrary: st)
  case Nil
  then show ?case by simp
next
  case (Cons x xs)
  show ?case
    unfolding workers.simps worker_outcome Cons.IH by simp
qed


lemma perm_length_filter: "mset xs = mset ys \<Longrightarrow> length (filter P xs) = length (filter P ys)"
proof -
  assume a: "mset xs = mset ys"
  have "\<And>zs. length (filter P zs) = size (filter_mset P (mset zs))"
    by (metis mset_filter size_mset)
  then show ?thesis using a by simp
qed

lemma savedRecord_code: "r \<in> set (savedRecord cfg e item) \<Longrightarrow> code r = code item"
  by (auto simp: savedRecord_def recordOf_def split: if_splits option.splits sum.splits)



lemma mset_insort_code: "mset (insort_code cmp r xs) = add_mset r (mset xs)"
  by (induction xs) auto

lemma mset_sort_code: "mset (sort_code cmp rs) = mset rs"
  by (induction rs) (auto simp: sort_code_def mset_insort_code)

lemma set_sort_code: "set (sort_code cmp rs) = set rs"
  using mset_sort_code[of cmp rs] by (metis set_mset_mset)

lemma length_sort_code: "length (sort_code cmp rs) = length rs"
  using mset_sort_code[of cmp rs] by (metis size_mset)






lemma example_run:
  "run exampleConfig exampleEnv id ''2026-01-01T00:00:00.000Z'' = Some (Inr exampleSnapshot)"
  by code_simp



lemma run_outcome:
  "run cfg e completion now =
     (case candidates cfg e of
        None \<Rightarrow> None
      | Some (Inl err) \<Rightarrow> Some (Inl err)
      | Some (Inr itemsList) \<Rightarrow>
          if \<exists>x \<in> set (completion itemsList). urlInvalid cfg e x then Some (Inl InvalidUrl)
          else Some (Inr \<lparr>generatedAt = now,
                    version = take 12 (digest e (sort_code (localeCompare e)
                                (concat (map (savedRecord cfg e) (completion itemsList))))),
                    searchUrl = (case pageUrls e (searchUrlArg cfg) of
                                   Some pageUrl \<Rightarrow> pageUrl 1 | None \<Rightarrow> []),
                    stats = \<lparr>totalFound = length itemsList,
                              totalSaved = length (concat (map (savedRecord cfg e) (completion itemsList))),
                              skipped = length (filter (semesterRejected cfg e) (completion itemsList))\<rparr>,
                    items = sort_code (localeCompare e)
                              (concat (map (savedRecord cfg e) (completion itemsList)))\<rparr>))"
  by (simp add: run_def workers_outcome length_sort_code Let_def split: sum.splits option.splits)

text \<open>A run returns, with a snapshot or an error, whenever its pagination returns.\<close>

lemma run_returns: "candidates cfg e = Some r \<Longrightarrow> \<exists>r'. run cfg e completion now = Some r'"
  by (cases r) (simp_all add: run_outcome)


lemma run_items:
  "run cfg e completion now = Some (Inr s) \<Longrightarrow> r \<in> set (items s) \<Longrightarrow>
   \<exists>item. r \<in> set (savedRecord cfg e item)"
  by (auto simp: run_outcome set_sort_code split: sum.splits option.splits if_splits)

lemma emailsOf_distinct: "distinct emails \<Longrightarrow> distinct (emailsOf e url emails)"
  by (auto simp: emailsOf_def parseSemesterEmails_distinct split: sum.splits)

lemma assessmentOf_emails: "distinct (snd (assessmentOf e url))"
  by (simp add: assessmentOf_def parseSemesterEmails_distinct split: sum.splits)

lemma assessmentOf_tables: "t \<in> set (fst (assessmentOf e url)) \<Longrightarrow> rows t \<noteq> []"
  by (auto simp: assessmentOf_def dest: parseAssessmentTables_rows split: sum.splits)

lemma savedRecord_emails: "r \<in> set (savedRecord cfg e item) \<Longrightarrow> distinct (instructorEmails r)"
  by (auto simp: savedRecord_def recordOf_def emailsOf_distinct assessmentOf_emails
        split: if_splits option.splits sum.splits)

lemma savedRecord_tables:
  "r \<in> set (savedRecord cfg e item) \<Longrightarrow> t \<in> set (tables (assessment r)) \<Longrightarrow> rows t \<noteq> []"
  by (auto simp: savedRecord_def recordOf_def dest: assessmentOf_tables
        split: if_splits option.splits sum.splits)

text \<open>
  Claim C1, amended. The list returned by \<^verbatim>\<open>parseSemesterEmails\<close>, and with it the
  \<^verbatim>\<open>instructorEmails\<close> of every record of a snapshot, contains no string twice. The
  comparison is that of the \<^verbatim>\<open>Set\<close>, exact equality of strings.
\<close>

theorem C1_emails_distinct_as_strings:
  "distinct (parseSemesterEmails doc semesterLabel)
   \<and> (\<forall>s. run cfg e completion now = Some (Inr s) \<longrightarrow>
         (\<forall>r \<in> set (items s). distinct (instructorEmails r)))"
  using parseSemesterEmails_distinct run_items savedRecord_emails by blast

theorem C1_emails_distinct_as_strings_witness:
  "run exampleConfig exampleEnv id ''2026-01-01T00:00:00.000Z'' = Some (Inr exampleSnapshot)
   \<and> last (items exampleSnapshot) \<in> set (items exampleSnapshot)
   \<and> distinct (instructorEmails (last (items exampleSnapshot)))"
proof -
  have m: "last (items exampleSnapshot) \<in> set (items exampleSnapshot)"
    by (simp add: exampleSnapshot_def)
  show ?thesis
    using C1_emails_distinct_as_strings[of exampleAssessmentDoc "''Semester 1''"
        exampleConfig exampleEnv id "''2026-01-01T00:00:00.000Z''"] example_run m
    by blast
qed

text \<open>Claim C1 as stated fails on the small site: the record of \<^verbatim>\<open>MAST10006\<close> keeps an
  address twice, in two spellings that are equal when letter case is ignored.\<close>

theorem C1_letter_case_variants_kept:
  "run exampleConfig exampleEnv id ''2026-01-01T00:00:00.000Z'' = Some (Inr exampleSnapshot)
   \<and> instructorEmails (last (items exampleSnapshot))
       = [''Jane.Doe@unimelb.edu.au'', ''jane.doe@unimelb.edu.au'']
   \<and> toLowerCase ''Jane.Doe@unimelb.edu.au'' = toLowerCase ''jane.doe@unimelb.edu.au''"
proof -
  have "toLowerCase ''Jane.Doe@unimelb.edu.au'' = toLowerCase ''jane.doe@unimelb.edu.au''"
    by code_simp
  then show ?thesis using example_run by (simp add: exampleSnapshot_def)
qed

text \<open>
  Claim C7. Every table in the list returned by \<^verbatim>\<open>parseAssessmentTables\<close> has at least
  one row, and so has every table of every record of a snapshot.
\<close>

theorem C7_tables_have_rows:
  "(\<forall>t \<in> set (parseAssessmentTables doc semesterLabel). 1 \<le> length (rows t))
   \<and> (\<forall>s. run cfg e completion now = Some (Inr s) \<longrightarrow>
         (\<forall>r \<in> set (items s). \<forall>t \<in> set (tables (assessment r)). 1 \<le> length (rows t)))"
proof -
  have ne: "\<And>t. rows t \<noteq> [] \<Longrightarrow> 1 \<le> length (rows t)"
    by (simp add: Suc_le_eq)
  show ?thesis
    using parseAssessmentTables_rows run_items savedRecord_tables ne by blast
qed

theorem C7_tables_have_rows_witness:
  "hd (parseAssessmentTables exampleAssessmentDoc ''Semester 1'')
     \<in> set (parseAssessmentTables exampleAssessmentDoc ''Semester 1'')
   \<and> 1 \<le> length (rows (hd (parseAssessmentTables exampleAssessmentDoc ''Semester 1'')))
   \<and> run exampleConfig exampleEnv id ''2026-01-01T00:00:00.000Z'' = Some (Inr exampleSnapshot)
   \<and> last (items exampleSnapshot) \<in> set (items exampleSnapshot)
   \<and> hd (tables (assessment (last (items exampleSnapshot))))
       \<in> set (tables (assessment (last (items exampleSnapshot))))
   \<and> 1 \<le> length (rows (hd (tables (assessment (last (items exampleSnapshot))))))"
proof -
  have ne: "parseAssessmentTables exampleAssessmentDoc ''Semester 1'' \<noteq> []"
    by code_simp
  then have m1: "hd (parseAssessmentTables exampleAssessmentDoc ''Semester 1'')
     \<in> set (parseAssessmentTables exampleAssessmentDoc ''Semester 1'')"
    by simp
  have m2: "last (items exampleSnapshot) \<in> set (items exampleSnapshot)"
    by (simp add: exampleSnapshot_def)
  have m3: "hd (tables (assessment (last (items exampleSnapshot))))
       \<in> set (tables (assessment (last (items exampleSnapshot))))"
    by (simp add: exampleSnapshot_def)
  show ?thesis
    using C7_tables_have_rows[of exampleAssessmentDoc "''Semester 1''"
        exampleConfig exampleEnv id "''2026-01-01T00:00:00.000Z''"] example_run m1 m2 m3
    by blast
qed

text \<open>The tie site: both subjects are saved; with the soft hyphen ignored their codes tie,
  and the comparator is consistent all the same.\<close>

lemma hyphenBlind_consistent: "consistent hyphenBlindCompare"
  by (auto simp: consistent_def hyphenBlindCompare_def exampleCompare_def split: if_splits)




lemma outcome_partition:
  "\<not> urlInvalid cfg e x \<Longrightarrow>
   (if semesterRejected cfg e x then 1 else 0) + (if detailFetchFailed cfg e x then 1 else 0)
     + length (savedRecord cfg e x) = (1::nat)"
  by (auto simp: urlInvalid_def semesterRejected_def detailFetchFailed_def savedRecord_def
        availabilityFiltered_def split: option.splits sum.splits)

lemma outcomes_partition:
  "\<forall>x \<in> set xs. \<not> urlInvalid cfg e x \<Longrightarrow>
   length (filter (semesterRejected cfg e) xs) + length (filter (detailFetchFailed cfg e) xs)
     + length (concat (map (savedRecord cfg e) xs)) = length xs"
proof (induction xs)
  case Nil
  then show ?case by simp
next
  case (Cons x xs)
  then have "\<not> urlInvalid cfg e x" by simp
  from outcome_partition[OF this] Cons show ?case by (auto split: if_splits)
qed

text \<open>
  Claim C10. In the snapshot of a completed run, \<^verbatim>\<open>skipped\<close> is the number of candidates
  rejected by one of the two semester checks; the saved candidates, the skipped ones and
  those whose detail request raised add up to \<^verbatim>\<open>totalFound\<close>. So \<^verbatim>\<open>totalSaved + skipped\<close>
  is at most \<^verbatim>\<open>totalFound\<close>, and less as soon as one detail request raised.
\<close>

theorem C10_stats_accounting:
  assumes "\<forall>xs. mset (completion xs) = mset xs"
    and "run cfg e completion now = Some (Inr s)"
  shows "\<exists>itemsList. candidates cfg e = Some (Inr itemsList)
           \<and> totalFound (stats s) = length itemsList
           \<and> skipped (stats s) = length (filter (semesterRejected cfg e) itemsList)
           \<and> totalSaved (stats s) + skipped (stats s)
               + length (filter (detailFetchFailed cfg e) itemsList) = totalFound (stats s)
           \<and> totalSaved (stats s) + skipped (stats s) \<le> totalFound (stats s)
           \<and> ((\<exists>x \<in> set itemsList. detailFetchFailed cfg e x)
                \<longrightarrow> totalSaved (stats s) + skipped (stats s) < totalFound (stats s))"
proof -
  from assms(2) obtain itemsList where c: "candidates cfg e = Some (Inr itemsList)"
    by (auto simp: run_outcome split: sum.splits option.splits)
  let ?done = "completion itemsList"
  have p: "mset ?done = mset itemsList" using assms(1) by simp
  have ok: "\<forall>x \<in> set ?done. \<not> urlInvalid cfg e x"
    using assms(2) c by (auto simp: run_outcome split: if_splits)
  have st: "totalFound (stats s) = length itemsList"
      "skipped (stats s) = length (filter (semesterRejected cfg e) ?done)"
      "totalSaved (stats s) = length (concat (map (savedRecord cfg e) ?done))"
    using assms(2) c ok by (auto simp: run_outcome)
  have len: "length ?done = length itemsList" using p by (metis size_mset)
  have sk: "length (filter (semesterRejected cfg e) ?done)
          = length (filter (semesterRejected cfg e) itemsList)"
    using p by (rule perm_length_filter)
  have fl: "length (filter (detailFetchFailed cfg e) ?done)
          = length (filter (detailFetchFailed cfg e) itemsList)"
    using p by (rule perm_length_filter)
  have sum: "totalSaved (stats s) + skipped (stats s)
               + length (filter (detailFetchFailed cfg e) itemsList) = totalFound (stats s)"
    using outcomes_partition[OF ok] st len sk fl by simp
  have strict: "(\<exists>x \<in> set itemsList. detailFetchFailed cfg e x) \<longrightarrow>
      0 < length (filter (detailFetchFailed cfg e) itemsList)"
    by (auto simp: filter_empty_conv)
  have le: "totalSaved (stats s) + skipped (stats s) \<le> totalFound (stats s)"
    using sum by linarith
  have lt: "(\<exists>x \<in> set itemsList. detailFetchFailed cfg e x)
      \<longrightarrow> totalSaved (stats s) + skipped (stats s) < totalFound (stats s)"
    using sum strict by linarith
  have sk': "skipped (stats s) = length (filter (semesterRejected cfg e) itemsList)"
    using st(2) sk by simp
  show ?thesis
    using c st(1) sk' sum le lt by blast
qed

theorem C10_stats_accounting_witness:
  "run exampleConfig exampleEnv rev ''2026-01-01T00:00:00.000Z'' = Some (Inr exampleSnapshot)
   \<and> totalSaved (stats exampleSnapshot) + skipped (stats exampleSnapshot)
       < totalFound (stats exampleSnapshot)"
proof -
  have r: "run exampleConfig exampleEnv rev ''2026-01-01T00:00:00.000Z'' = Some (Inr exampleSnapshot)"
    by code_simp
  have p: "\<forall>xs::stub list. mset (rev xs) = mset xs" by simp
  have f: "detailFetchFailed exampleConfig exampleEnv
             \<lparr>code = wide ''BIOL10008'', name = [], href = Some ''/down'', offered = []\<rparr>"
    by code_simp
  have c: "candidates exampleConfig exampleEnv = Some (Inr
      [\<lparr>code = wide ''MAST10006'', name = ''Calculus 2'',
         href = Some ''/mast10006'', offered = ''Semester 1''\<rparr>,
       \<lparr>code = wide ''COMP10001'', name = ''Foundations of Computing'',
         href = Some ''/comp10001'', offered = []\<rparr>,
       \<lparr>code = wide ''PHYC10003'', name = [], href = Some ''/phyc10003'',
         offered = ''Semester 2''\<rparr>,
       \<lparr>code = wide ''BIOL10008'', name = [], href = Some ''/down'',
         offered = []\<rparr>])"
    by code_simp
  from C10_stats_accounting[OF p r] c f show ?thesis using r by auto
qed

end
